theory Spec2Isabelle
  imports Main
begin

section \<open>Python values used by the Othello engine\<close>

text \<open>
  The engine (\<^verbatim>\<open>components.py\<close>) works on a board that is a list of rows, each row a
  list of strings, and on colour strings. A \<^typ>\<open>char\<close> stands for a code point
  below 256. Rows are values here: two rows of a board never share storage, as is the
  case for every board built by \<^verbatim>\<open>initialise_board\<close> or read from JSON.
  Exceptions are values of the type \<open>error\<close>; a function that can raise returns
  \<open>error + 'a\<close>, with \<open>Inl\<close> for the exception.
\<close>

datatype error = IndexError | ValueError string | OverflowError | Diverges

type_synonym board = "string list list"

definition EMPTY :: string where "EMPTY = ''None ''"
definition BLACK :: string where "BLACK = ''Black''"
definition WHITE :: string where "WHITE = ''White''"

definition DIRECTIONS :: "(int \<times> int) list" where
  "DIRECTIONS = [(-1, -1), (0, -1), (1, -1), (-1, 0), (1, 0), (-1, 1), (0, 1), (1, 1)]"

text \<open>
  \<^verbatim>\<open>str.isspace\<close> on the code points below 256: tab to carriage return, the four
  separators 0x1C to 0x1F, the space, NEL (0x85) and the no-break space (0xA0).
\<close>

definition is_space :: "char \<Rightarrow> bool" where
  "is_space c \<longleftrightarrow> c \<in> set [CHR 0x09, CHR 0x0A, CHR 0x0B, CHR 0x0C, CHR 0x0D,
     CHR 0x1C, CHR 0x1D, CHR 0x1E, CHR 0x1F, CHR 0x20, CHR 0x85, CHR 0xA0]"

text \<open>\<^verbatim>\<open>s.strip()\<close>: leading and trailing whitespace removed.\<close>

definition strip :: "string \<Rightarrow> string" where
  "strip s = rev (dropWhile is_space (rev (dropWhile is_space s)))"

text \<open>
  Python list indexing \<^verbatim>\<open>xs[i]\<close>: a negative index counts from the end, an index out
  of range raises \<^verbatim>\<open>IndexError\<close>. \<open>py_index\<close> gives the position that is read or
  written.
\<close>

definition py_index :: "'a list \<Rightarrow> int \<Rightarrow> error + nat" where
  "py_index xs i =
     (let n = int (length xs); j = (if i < 0 then n + i else i)
      in if 0 \<le> j \<and> j < n then Inr (nat j) else Inl IndexError)"

text \<open>\<^verbatim>\<open>board[y][x]\<close> as a read.\<close>

definition get_cell :: "board \<Rightarrow> int \<Rightarrow> int \<Rightarrow> error + string" where
  "get_cell board x y =
     (case py_index board y of
        Inl e \<Rightarrow> Inl e
      | Inr j \<Rightarrow>
          (case py_index (board ! j) x of
             Inl e \<Rightarrow> Inl e
           | Inr i \<Rightarrow> Inr (board ! j ! i)))"

text \<open>\<^verbatim>\<open>board[y][x] = v\<close>: the board after the assignment.\<close>

definition set_cell :: "board \<Rightarrow> int \<Rightarrow> int \<Rightarrow> string \<Rightarrow> error + board" where
  "set_cell board x y v =
     (case py_index board y of
        Inl e \<Rightarrow> Inl e
      | Inr j \<Rightarrow>
          (case py_index (board ! j) x of
             Inl e \<Rightarrow> Inl e
           | Inr i \<Rightarrow> Inr (board[j := (board ! j)[i := v]])))"

section \<open>The board\<close>

text \<open>
  \<^verbatim>\<open>initialise_board(size)\<close>: a \<open>size\<close> by \<open>size\<close> grid of \<open>EMPTY\<close>
  (\<^verbatim>\<open>range(size)\<close> is empty for a negative size), then the four centre discs written in
  the order of the source. \<^verbatim>\<open>size // 2\<close> is floor division, as \<open>div\<close> on \<^typ>\<open>int\<close>.
\<close>

definition initialise_board :: "int \<Rightarrow> error + board" where
  "initialise_board sz =
     (let board = replicate (nat sz) (replicate (nat sz) EMPTY);
          mid1 = sz div 2 - 1;
          mid2 = sz div 2
      in case set_cell board mid1 mid1 WHITE of
           Inl e \<Rightarrow> Inl e
         | Inr b1 \<Rightarrow>
        (case set_cell b1 mid2 mid2 WHITE of
           Inl e \<Rightarrow> Inl e
         | Inr b2 \<Rightarrow>
        (case set_cell b2 mid2 mid1 BLACK of
           Inl e \<Rightarrow> Inl e
         | Inr b3 \<Rightarrow> set_cell b3 mid1 mid2 BLACK)))"

section \<open>The rules engine\<close>

text \<open>
  The inner \<^verbatim>\<open>while\<close> loop of \<^verbatim>\<open>_discs_to_flip\<close> for one direction: it walks from
  \<open>(cx, cy)\<close> in steps of \<open>(dx, dy)\<close>, collecting the opponent's cells in \<open>line\<close>, and
  returns what the direction adds to \<open>flips\<close>. The loop of the source does not end
  when the step is \<open>(0, 0)\<close> and the cell is the opponent's; the model returns
  \<open>Diverges\<close> there. No element of \<open>DIRECTIONS\<close> is \<open>(0, 0)\<close>.
\<close>

function walk ::
  "board \<Rightarrow> string \<Rightarrow> string \<Rightarrow> int \<Rightarrow> int \<Rightarrow> int \<Rightarrow> int \<Rightarrow> (int \<times> int) list
    \<Rightarrow> error + (int \<times> int) list" where
  "walk board me other dx dy cx cy line =
     (let sz = int (length board) in
      if 0 \<le> cx \<and> cx < sz \<and> 0 \<le> cy \<and> cy < sz then
        (case get_cell board cx cy of
           Inl e \<Rightarrow> Inl e
         | Inr c \<Rightarrow>
             (let cell = strip c in
              if cell = other then
                (if dx = 0 \<and> dy = 0 then Inl Diverges
                 else walk board me other dx dy (cx + dx) (cy + dy) (line @ [(cx, cy)]))
              else if cell = me then (if line \<noteq> [] then Inr line else Inr [])
              else Inr []))
      else Inr [])"
  by pat_completeness auto
termination
  by (relation "measure (\<lambda>(board, me, other, dx, dy, cx, cy, line).
        if dx > 0 then nat (int (length board) - cx)
        else if dx < 0 then nat (cx + 1)
        else if dy > 0 then nat (int (length board) - cy)
        else nat (cy + 1))") auto

declare walk.simps [simp del]

text \<open>The \<^verbatim>\<open>for dx, dy in DIRECTIONS\<close> loop, with \<open>flips\<close> as the accumulator.\<close>

fun flip_dirs ::
  "board \<Rightarrow> string \<Rightarrow> string \<Rightarrow> int \<Rightarrow> int \<Rightarrow> (int \<times> int) list \<Rightarrow> (int \<times> int) list
    \<Rightarrow> error + (int \<times> int) list" where
  "flip_dirs board me other x0 y0 [] flips = Inr flips"
| "flip_dirs board me other x0 y0 ((dx, dy) # ds) flips =
     (case walk board me other dx dy (x0 + dx) (y0 + dy) [] of
        Inl e \<Rightarrow> Inl e
      | Inr line \<Rightarrow> flip_dirs board me other x0 y0 ds (flips @ line))"

text \<open>\<^verbatim>\<open>_discs_to_flip(board, colour, x0, y0)\<close>.\<close>

definition discs_to_flip :: "board \<Rightarrow> string \<Rightarrow> int \<Rightarrow> int \<Rightarrow> error + (int \<times> int) list" where
  "discs_to_flip board colour x0 y0 =
     (let sz = int (length board) in
      if \<not> (0 \<le> x0 \<and> x0 < sz \<and> 0 \<le> y0 \<and> y0 < sz) then Inr []
      else
        (case get_cell board x0 y0 of
           Inl e \<Rightarrow> Inl e
         | Inr c \<Rightarrow>
             if strip c \<noteq> ''None'' then Inr []
             else
               (let me = strip colour in
                if me \<notin> {''Black'', ''White''} then Inr []
                else
                  (let other = (if me = ''Black'' then ''White'' else ''Black'')
                   in flip_dirs board me other x0 y0 DIRECTIONS []))))"

text \<open>\<^verbatim>\<open>legal_move(colour, coord, board)\<close>, with \<open>coord = (x, y)\<close> 1-based.\<close>

definition legal_move :: "string \<Rightarrow> int \<times> int \<Rightarrow> board \<Rightarrow> error + bool" where
  "legal_move colour coord board =
     (let x = fst coord; y = snd coord; x0 = x - 1; y0 = y - 1 in
      if \<not> (0 \<le> x0 \<and> x0 < int (length board) \<and> 0 \<le> y0 \<and> y0 < int (length board))
      then Inr False
      else
        (case discs_to_flip board colour x0 y0 of
           Inl e \<Rightarrow> Inl e
         | Inr flips \<Rightarrow> Inr (length flips > 0)))"

text \<open>The loop \<^verbatim>\<open>for fx, fy in flips: board[fy][fx] = piece\<close>.\<close>

fun set_flips :: "board \<Rightarrow> (int \<times> int) list \<Rightarrow> string \<Rightarrow> error + board" where
  "set_flips board [] piece = Inr board"
| "set_flips board ((fx, fy) # fs) piece =
     (case set_cell board fx fy piece of
        Inl e \<Rightarrow> Inl e
      | Inr b \<Rightarrow> set_flips b fs piece)"

text \<open>
  \<^verbatim>\<open>apply_move(colour, coord, board)\<close>: the number of flips and the board after the
  call. The source mutates the board in place; it raises only in \<^verbatim>\<open>_discs_to_flip\<close>
  or at its first assignment (the later ones write cells that were read before), so
  that an \<open>Inl\<close> result leaves the board as it was.
\<close>

definition apply_move :: "string \<Rightarrow> int \<times> int \<Rightarrow> board \<Rightarrow> error + (nat \<times> board)" where
  "apply_move colour coord board =
     (let x = fst coord; y = snd coord; x0 = x - 1; y0 = y - 1 in
      case discs_to_flip board colour x0 y0 of
        Inl e \<Rightarrow> Inl e
      | Inr flips \<Rightarrow>
          (let piece = (if colour = ''Black'' then BLACK else WHITE) in
           case set_cell board x0 y0 piece of
             Inl e \<Rightarrow> Inl e
           | Inr b1 \<Rightarrow>
               (case set_flips b1 flips piece of
                  Inl e \<Rightarrow> Inl e
                | Inr b2 \<Rightarrow> Inr (length flips, b2))))"

text \<open>
  \<^verbatim>\<open>has_any_legal_moves(colour, board)\<close>: rows \<open>y\<close> from 1 to \<open>size\<close>, in each row
  columns \<open>x\<close> from 1 to \<open>size\<close>, returning at the first legal move.
\<close>

fun scan_row :: "string \<Rightarrow> board \<Rightarrow> int \<Rightarrow> int list \<Rightarrow> error + bool" where
  "scan_row colour board y [] = Inr False"
| "scan_row colour board y (x # xs) =
     (case legal_move colour (x, y) board of
        Inl e \<Rightarrow> Inl e
      | Inr True \<Rightarrow> Inr True
      | Inr False \<Rightarrow> scan_row colour board y xs)"

fun scan_rows :: "string \<Rightarrow> board \<Rightarrow> int list \<Rightarrow> error + bool" where
  "scan_rows colour board [] = Inr False"
| "scan_rows colour board (y # ys) =
     (case scan_row colour board y [1 .. int (length board)] of
        Inl e \<Rightarrow> Inl e
      | Inr True \<Rightarrow> Inr True
      | Inr False \<Rightarrow> scan_rows colour board ys)"

definition has_any_legal_moves :: "string \<Rightarrow> board \<Rightarrow> error + bool" where
  "has_any_legal_moves colour board = scan_rows colour board [1 .. int (length board)]"

text \<open>\<^verbatim>\<open>count_pieces(board)\<close>: the pair \<open>(black, white)\<close>.\<close>

fun count_cell :: "nat \<times> nat \<Rightarrow> string \<Rightarrow> nat \<times> nat" where
  "count_cell (black, white) cell =
     (let v = strip cell in
      if v = ''Black'' then (black + 1, white)
      else if v = ''White'' then (black, white + 1)
      else (black, white))"

definition count_pieces :: "board \<Rightarrow> nat \<times> nat" where
  "count_pieces board = foldl (\<lambda>acc row. foldl count_cell acc row) (0, 0) board"

section \<open>The command-line parser\<close>

text \<open>
  \<^verbatim>\<open>s.replace(c, "")\<close> for a one-character \<open>c\<close>, and \<^verbatim>\<open>s.upper()\<close>. The letters
  \<open>a\<close> to \<open>z\<close> and the lower-case letters from 0xE0 to 0xFE (0xF7, the division
  sign, is none) lose 32, and the sharp s (0xDF) becomes \<^verbatim>\<open>SS\<close>, so that the string can
  grow. Python maps two more code points below 256, the micro sign 0xB5 and 0xFF, to
  code points from 256 on, which a \<^typ>\<open>char\<close> cannot hold: the model leaves these two as
  they are.
\<close>

definition remove_char :: "char \<Rightarrow> string \<Rightarrow> string" where
  "remove_char c s = filter (\<lambda>d. d \<noteq> c) s"

definition ord :: "char \<Rightarrow> int" where
  "ord c = int (of_char c)"

definition upper_char :: "char \<Rightarrow> string" where
  "upper_char c =
     (if (97 \<le> ord c \<and> ord c \<le> 122) \<or> (224 \<le> ord c \<and> ord c \<le> 254 \<and> ord c \<noteq> 247)
      then [char_of (nat (ord c - 32))]
      else if ord c = 223 then ''SS''
      else [c])"

definition upper :: "string \<Rightarrow> string" where
  "upper s = concat (map upper_char s)"

text \<open>
  \<^verbatim>\<open>int(s)\<close> on a string, as CPython 3.11 does it. Surrounding whitespace is dropped;
  the whitespace of \<^verbatim>\<open>int\<close> is narrower than that of \<^verbatim>\<open>str.strip\<close>: tab to carriage
  return, the space, NEL (0x85) and the no-break space (0xA0), without the separators
  0x1C to 0x1F. A sign may lead, and the rest is decimal digits, where single
  underscores may stand between digits. \<open>int_digits prev acc\<close> reads the digits;
  \<open>prev\<close> says that the character before was a digit. The scan takes the longest run
  of digits and underscores: a fault in the underscores is reported first, then a
  run of more than 4300 digits (the default of \<^verbatim>\<open>sys.int_max_str_digits\<close>), then
  anything left after the run. Each of them raises \<^verbatim>\<open>ValueError\<close>; the messages are
  cut to their fixed part.
\<close>

definition is_int_space :: "char \<Rightarrow> bool" where
  "is_int_space c \<longleftrightarrow> c \<in> set [CHR 0x09, CHR 0x0A, CHR 0x0B, CHR 0x0C, CHR 0x0D,
     CHR 0x20, CHR 0x85, CHR 0xA0]"

definition int_strip :: "string \<Rightarrow> string" where
  "int_strip s = rev (dropWhile is_int_space (rev (dropWhile is_int_space s)))"

definition is_digit :: "char \<Rightarrow> bool" where
  "is_digit c \<longleftrightarrow> 48 \<le> ord c \<and> ord c \<le> 57"

fun int_digits :: "bool \<Rightarrow> nat \<Rightarrow> string \<Rightarrow> nat option" where
  "int_digits prev acc [] = (if prev then Some acc else None)"
| "int_digits prev acc (c # cs) =
     (if is_digit c then int_digits True (acc * 10 + nat (ord c - 48)) cs
      else if c = CHR ''_'' \<and> prev then int_digits False acc cs
      else None)"

definition py_int :: "string \<Rightarrow> error + int" where
  "py_int s =
     (let t = int_strip s;
          neg = (t \<noteq> [] \<and> hd t = CHR ''-'');
          ds = (if t \<noteq> [] \<and> (hd t = CHR ''-'' \<or> hd t = CHR ''+'') then tl t else t);
          run = takeWhile (\<lambda>c. is_digit c \<or> c = CHR ''_'') ds
      in case int_digits False 0 run of
           None \<Rightarrow> Inl (ValueError ''invalid literal for int() with base 10'')
         | Some n \<Rightarrow>
             if length (filter is_digit run) > 4300
             then Inl (ValueError ''Exceeds the limit (4300 digits) for integer string conversion'')
             else if run \<noteq> ds then Inl (ValueError ''invalid literal for int() with base 10'')
             else Inr (if neg then - int n else int n))"

text \<open>\<^verbatim>\<open>parse_letter_number_input(raw)\<close> of \<^verbatim>\<open>game_engine.py\<close>.\<close>

definition parse_letter_number_input :: "string \<Rightarrow> error + (int \<times> int)" where
  "parse_letter_number_input raw =
     (let raw1 = upper (remove_char CHR '' '' (remove_char CHR '','' (strip raw))) in
      if length raw1 < 2 then Inl (ValueError ''Input must contain a letter and a number.'')
      else
        (let letter = hd raw1 in
         if \<not> (ord CHR ''A'' \<le> ord letter \<and> ord letter \<le> ord CHR ''H'')
         then Inl (ValueError ''Column must be a letter from A to H.'')
         else
           (let x = ord letter - ord CHR ''A'' + 1 in
            case py_int (tl raw1) of
              Inl exc \<Rightarrow> Inl (ValueError ''Row must be a number between 1 and 8.'')
            | Inr y \<Rightarrow>
                if \<not> (1 \<le> y \<and> y \<le> 8) then Inl (ValueError ''Row must be between 1 and 8.'')
                else Inr (x, y))))"

section \<open>The turn resolver of the web interface\<close>

text \<open>
  \<^verbatim>\<open>flask_engine.py\<close> keeps one dictionary \<^verbatim>\<open>game_state\<close>; the empty dictionary is
  \<open>None\<close> here. A move notation such as \<^verbatim>\<open>D3\<close> is kept as the pair of the letter's
  code point and the row number, and the texts built with f-strings are kept as the
  values they are built from: \<open>message\<close> for the \<^verbatim>\<open>message\<close> field, and the triple
  (black, white, winner) for the \<^verbatim>\<open>finished\<close> field.
\<close>

type_synonym move_notation = "int \<times> int"

record game_state =
  state_board :: board
  current :: string
  move_history :: "move_notation list"
  game_finished :: bool

datatype message =
    InvalidCoordinates
  | AlreadyOver
  | IllegalAttempt string move_notation
  | Played string move_notation nat string string

record response =
  status :: string
  message :: message
  response_board :: board
  current_player :: string
  notation_field :: "move_notation option"
  finished :: "(nat \<times> nat \<times> string) option"

definition new_game :: "error + game_state" where
  "new_game =
     (case initialise_board 8 of
        Inl e \<Rightarrow> Inl e
      | Inr b \<Rightarrow>
          Inr \<lparr>state_board = b, current = ''Black'', move_history = [], game_finished = False\<rparr>)"

text \<open>\<^verbatim>\<open>is_game_finished(board)\<close>; the \<^verbatim>\<open>and\<close> of the source does not ask White when
  Black has a move.\<close>

definition is_game_finished :: "board \<Rightarrow> error + bool" where
  "is_game_finished b =
     (case has_any_legal_moves ''Black'' b of
        Inl e \<Rightarrow> Inl e
      | Inr True \<Rightarrow> Inr False
      | Inr False \<Rightarrow>
          (case has_any_legal_moves ''White'' b of
             Inl e \<Rightarrow> Inl e
           | Inr w \<Rightarrow> Inr (\<not> w)))"

definition other_colour :: "string \<Rightarrow> string" where
  "other_colour colour = (if colour = ''Black'' then ''White'' else ''Black'')"

text \<open>
  \<^verbatim>\<open>coord_to_notation(x, y)\<close>: \<^verbatim>\<open>chr\<close> raises \<^verbatim>\<open>OverflowError\<close> for an argument
  beyond the range of a C int (32 bits), and \<^verbatim>\<open>ValueError\<close> for any other argument
  that is no code point.
\<close>

definition coord_to_notation :: "int \<Rightarrow> int \<Rightarrow> error + move_notation" where
  "coord_to_notation x y =
     (let cp = 65 + x - 1 in
      if cp < - 2147483648 \<or> 2147483647 < cp then Inl OverflowError
      else if 0 \<le> cp \<and> cp < 1114112 then Inr (cp, y)
      else Inl (ValueError ''chr() arg not in range(0x110000)''))"

text \<open>
  The pass handling of \<^verbatim>\<open>move\<close>: the next player and the pass notice, from the
  board after the move.
\<close>

definition next_player :: "string \<Rightarrow> board \<Rightarrow> error + (string \<times> string)" where
  "next_player cur b =
     (let opponent = other_colour cur in
      case has_any_legal_moves opponent b of
        Inl e \<Rightarrow> Inl e
      | Inr True \<Rightarrow> Inr (opponent, '''')
      | Inr False \<Rightarrow>
          (case has_any_legal_moves cur b of
             Inl e \<Rightarrow> Inl e
           | Inr True \<Rightarrow>
               Inr (cur, '' '' @ opponent @ '' has no legal moves, so '' @ cur @ '' plays again.'')
           | Inr False \<Rightarrow> Inr (opponent, '''')))"

text \<open>The end-of-game part of \<^verbatim>\<open>move\<close>: the final score and the winner's text.\<close>

definition finished_text :: "board \<Rightarrow> nat \<times> nat \<times> string" where
  "finished_text b =
     (let black = fst (count_pieces b); white = snd (count_pieces b);
          winner = (if black > white then ''Black wins!''
                    else if white > black then ''White wins!''
                    else ''It's a draw!'')
      in (black, white, winner))"

text \<open>
  \<^verbatim>\<open>move()\<close>, the handler of \<^verbatim>\<open>/move\<close>, with the raw values of the query
  parameters \<open>x\<close> and \<open>y\<close> (the empty string when one is missing). It returns the
  game state after the request and the response. An \<open>Inl\<close> is an exception that
  leaves the handler.
\<close>

definition move :: "game_state option \<Rightarrow> string \<Rightarrow> string \<Rightarrow> error + (game_state \<times> response)" where
  "move gs xs ys =
     (case (case gs of None \<Rightarrow> new_game | Some s \<Rightarrow> Inr s) of
        Inl e \<Rightarrow> Inl e
      | Inr s \<Rightarrow>
     (case (case py_int xs of Inl e \<Rightarrow> Inl e
            | Inr x \<Rightarrow> (case py_int ys of Inl e \<Rightarrow> Inl e | Inr y \<Rightarrow> Inr (x, y))) of
        Inl e \<Rightarrow>
          Inr (s, \<lparr>status = ''fail'', message = InvalidCoordinates,
                   response_board = state_board s, current_player = current s,
                   notation_field = None, finished = None\<rparr>)
      | Inr (x, y) \<Rightarrow>
     (let b = state_board s; cur = current s in
      if game_finished s then
        Inr (s, \<lparr>status = ''success'', message = AlreadyOver,
                 response_board = b, current_player = cur,
                 notation_field = None, finished = None\<rparr>)
      else
     (case legal_move cur (x, y) b of
        Inl e \<Rightarrow> Inl e
      | Inr False \<Rightarrow>
          (case coord_to_notation x y of
             Inl e \<Rightarrow> Inl e
           | Inr attempted \<Rightarrow>
               Inr (s, \<lparr>status = ''fail'', message = IllegalAttempt cur attempted,
                        response_board = b, current_player = cur,
                        notation_field = None, finished = None\<rparr>))
      | Inr True \<Rightarrow>
     (case apply_move cur (x, y) b of
        Inl e \<Rightarrow> Inl e
      | Inr (flips, b') \<Rightarrow>
     (case coord_to_notation x y of
        Inl e \<Rightarrow> Inl e
      | Inr notation \<Rightarrow>
     (let flip_word = (if flips = 1 then ''disc'' else ''discs'') in
      case next_player cur b' of
        Inl e \<Rightarrow> Inl e
      | Inr (next, pass_info) \<Rightarrow>
     (case is_game_finished b' of
        Inl e \<Rightarrow> Inl e
      | Inr fin \<Rightarrow>
          Inr (\<lparr>state_board = b', current = next,
                move_history = move_history s @ [notation],
                game_finished = (if fin then True else game_finished s)\<rparr>,
               \<lparr>status = ''success'',
                message = Played cur notation flips flip_word pass_info,
                response_board = b', current_player = next,
                notation_field = Some notation,
                finished = (if fin then Some (finished_text b') else None)\<rparr>)))))))))"

section \<open>Boards the properties are stated on\<close>

text \<open>
  A square board has as many cells in every row as it has rows. \<open>standard_board\<close> is
  the board \<^verbatim>\<open>initialise_board()\<close> returns for the default size 8. A cell is empty
  when it reads \<^verbatim>\<open>None\<close> after \<^verbatim>\<open>strip\<close>, which is the test of the source.
\<close>

definition square :: "board \<Rightarrow> bool" where
  "square b \<longleftrightarrow> (\<forall>row \<in> set b. length row = length b)"

definition standard_board :: board where
  "standard_board = (case initialise_board 8 of Inr b \<Rightarrow> b | Inl e \<Rightarrow> [])"

definition no_empty_cell :: "board \<Rightarrow> bool" where
  "no_empty_cell b \<longleftrightarrow> (\<forall>row \<in> set b. \<forall>c \<in> set row. strip c \<noteq> ''None'')"

text \<open>
  Two positions with Black to move at A1. On \<open>pass_board\<close> the move leaves White
  without a move and Black with one; on \<open>last_move_board\<close> it fills the board.
\<close>

definition pass_board :: board where
  "pass_board =
     [[''None '', ''White'', ''Black'', ''None ''],
      [''None '', ''None '', ''None '', ''None ''],
      [''Black'', ''White'', ''None '', ''None ''],
      [''None '', ''None '', ''None '', ''None '']]"

definition last_move_board :: board where
  "last_move_board =
     [[''None '', ''White'', ''Black''],
      [''Black'', ''Black'', ''Black''],
      [''Black'', ''Black'', ''Black'']]"

definition opening_state :: game_state where
  "opening_state =
     \<lparr>state_board = standard_board, current = ''Black'', move_history = [],
      game_finished = False\<rparr>"

definition pass_state :: game_state where
  "pass_state =
     \<lparr>state_board = pass_board, current = ''Black'', move_history = [],
      game_finished = False\<rparr>"

definition last_move_state :: game_state where
  "last_move_state =
     \<lparr>state_board = last_move_board, current = ''Black'', move_history = [],
      game_finished = False\<rparr>"

text \<open>
  What a request to \<open>move\<close> leaves behind, for a statement about a concrete run:
  the current player, the finished flag, and the \<^verbatim>\<open>finished\<close> field of the response.
\<close>

definition outcome ::
  "error + (game_state \<times> response) \<Rightarrow> (string \<times> bool \<times> (nat \<times> nat \<times> string) option) option" where
  "outcome res =
     (case res of
        Inl e \<Rightarrow> None
      | Inr (s, r) \<Rightarrow> Some (current s, game_finished s, finished r))"

text \<open>
  Vocabulary of the proofs. \<open>cell_exists b p\<close>: the position \<open>p = (x, y)\<close>, with
  indices that are not negative, is a cell of \<open>b\<close>. \<open>ray x0 y0 dx dy k\<close> is the cell
  reached from \<open>(x0, y0)\<close> after \<open>k\<close> steps of \<open>(dx, dy)\<close>, and \<open>dir_of x0 y0 p\<close> the
  direction in which \<open>p\<close> lies from \<open>(x0, y0)\<close>. \<open>positions b\<close> lists the cells of
  \<open>b\<close> row by row, and \<open>changed_cells b b'\<close> those that read differently in \<open>b'\<close>.
  \<open>occupied c\<close> is 1 for a cell that \<open>count_pieces\<close> counts, for either colour.
\<close>

definition cell_exists :: "board \<Rightarrow> int \<times> int \<Rightarrow> bool" where
  "cell_exists b p \<longleftrightarrow>
     0 \<le> fst p \<and> 0 \<le> snd p \<and> nat (snd p) < length b \<and> nat (fst p) < length (b ! nat (snd p))"

definition ray :: "int \<Rightarrow> int \<Rightarrow> int \<Rightarrow> int \<Rightarrow> nat \<Rightarrow> int \<times> int" where
  "ray x0 y0 dx dy k = (x0 + int k * dx, y0 + int k * dy)"

definition dir_of :: "int \<Rightarrow> int \<Rightarrow> int \<times> int \<Rightarrow> int \<times> int" where
  "dir_of x0 y0 p = (sgn (fst p - x0), sgn (snd p - y0))"

definition positions :: "board \<Rightarrow> (int \<times> int) list" where
  "positions b =
     concat (map (\<lambda>y. map (\<lambda>x. (int x, int y)) [0 ..< length (b ! y)]) [0 ..< length b])"

definition changed_cells :: "board \<Rightarrow> board \<Rightarrow> (int \<times> int) list" where
  "changed_cells b b' =
     filter (\<lambda>p. get_cell b' (fst p) (snd p) \<noteq> get_cell b (fst p) (snd p)) (positions b)"

definition occupied :: "string \<Rightarrow> nat" where
  "occupied c = (if strip c = ''Black'' \<or> strip c = ''White'' then 1 else 0)"

text \<open>
  \<open>cell_at b p\<close> is the content of an existing cell, \<open>shape b\<close> the lengths of the
  rows, and \<open>pieces b\<close> the number of cells that \<open>count_pieces\<close> counts.
\<close>

definition cell_at :: "board \<Rightarrow> int \<times> int \<Rightarrow> string" where
  "cell_at b p = b ! nat (snd p) ! nat (fst p)"

definition shape :: "board \<Rightarrow> nat list" where
  "shape b = map length b"

definition pieces :: "board \<Rightarrow> nat" where
  "pieces b = sum_list (map (\<lambda>row. sum_list (map occupied row)) b)"

section \<open>The command-line parser on the inputs of Scenario 5\<close>

text \<open>
  C10: \<open>parse_letter_number_input\<close> maps \<^verbatim>\<open>"  d  6 "\<close> to the coordinate (4, 6), and
  raises \<^verbatim>\<open>ValueError\<close> with a message that names the fault on each of \<^verbatim>\<open>"Z9"\<close>
  (the column), \<^verbatim>\<open>"A0"\<close> and \<^verbatim>\<open>"B12"\<close> (the row out of range).
\<close>

theorem parse_letter_number_input_scenario:
  "parse_letter_number_input ''  d  6 '' = Inr (4, 6) \<and>
   parse_letter_number_input ''Z9'' = Inl (ValueError ''Column must be a letter from A to H.'') \<and>
   parse_letter_number_input ''A0'' = Inl (ValueError ''Row must be between 1 and 8.'') \<and>
   parse_letter_number_input ''B12'' = Inl (ValueError ''Row must be between 1 and 8.'')"
  by code_simp

section \<open>Reads, writes and totality on square boards\<close>

lemma strip_Black: "strip ''Black'' = ''Black''"
  by (simp add: strip_def is_space_def)

lemma strip_White: "strip ''White'' = ''White''"
  by (simp add: strip_def is_space_def)

lemma py_index_nonneg:
  "0 \<le> i \<Longrightarrow> py_index xs i = (if i < int (length xs) then Inr (nat i) else Inl IndexError)"
  by (simp add: py_index_def Let_def)

lemma get_cell_nonneg:
  "0 \<le> x \<Longrightarrow> 0 \<le> y \<Longrightarrow>
   get_cell b x y =
     (if nat y < length b \<and> nat x < length (b ! nat y) then Inr (b ! nat y ! nat x)
      else Inl IndexError)"
  by (auto simp: get_cell_def py_index_nonneg)

lemma set_cell_nonneg:
  "0 \<le> x \<Longrightarrow> 0 \<le> y \<Longrightarrow>
   set_cell b x y v =
     (if nat y < length b \<and> nat x < length (b ! nat y)
      then Inr (b[nat y := (b ! nat y)[nat x := v]])
      else Inl IndexError)"
  by (auto simp: set_cell_def py_index_nonneg)

lemma get_cell_square:
  "square b \<Longrightarrow> 0 \<le> x \<Longrightarrow> x < int (length b) \<Longrightarrow> 0 \<le> y \<Longrightarrow> y < int (length b) \<Longrightarrow>
   get_cell b x y = Inr (b ! nat y ! nat x)"
  using nth_mem[of "nat y" b] by (auto simp: get_cell_nonneg square_def)

lemma walk_outside:
  "\<not> (0 \<le> cx \<and> cx < int (length b) \<and> 0 \<le> cy \<and> cy < int (length b)) \<Longrightarrow>
   walk b me other dx dy cx cy line = Inr []"
  by (subst walk.simps) (auto simp: Let_def)

lemma walk_inside:
  "0 \<le> cx \<Longrightarrow> cx < int (length b) \<Longrightarrow> 0 \<le> cy \<Longrightarrow> cy < int (length b) \<Longrightarrow>
   walk b me other dx dy cx cy line =
     (case get_cell b cx cy of
        Inl e \<Rightarrow> Inl e
      | Inr c \<Rightarrow>
          if strip c = other then
            (if dx = 0 \<and> dy = 0 then Inl Diverges
             else walk b me other dx dy (cx + dx) (cy + dy) (line @ [(cx, cy)]))
          else if strip c = me then Inr line
          else Inr [])"
  by (subst walk.simps) (auto simp: Let_def split: sum.splits)

lemma walk_total:
  "square b \<Longrightarrow> \<not> (dx = 0 \<and> dy = 0) \<Longrightarrow> \<exists>l. walk b me other dx dy cx cy line = Inr l"
proof (induction b me other dx dy cx cy line rule: walk.induct)
  case (1 board me other dx dy cx cy line)
  show ?case
  proof (cases "0 \<le> cx \<and> cx < int (length board) \<and> 0 \<le> cy \<and> cy < int (length board)")
    case False
    then show ?thesis by (simp add: walk_outside)
  next
    case True
    then have g: "get_cell board cx cy = Inr (board ! nat cy ! nat cx)"
      using "1.prems"(1) by (simp add: get_cell_square)
    show ?thesis
    proof (cases "strip (board ! nat cy ! nat cx) = other")
      case other: True
      have "\<exists>l. walk board me other dx dy (cx + dx) (cy + dy) (line @ [(cx, cy)]) = Inr l"
        using "1.IH"[OF refl True g refl other] "1.prems" by blast
      then show ?thesis
        using True g other "1.prems"(2) by (simp add: walk_inside)
    next
      case False
      then show ?thesis using True g by (simp add: walk_inside)
    qed
  qed
qed

lemma flip_dirs_total:
  "square b \<Longrightarrow> (0, 0) \<notin> set ds \<Longrightarrow> \<exists>fl. flip_dirs b me other x0 y0 ds flips = Inr fl"
proof (induction ds arbitrary: flips)
  case Nil
  then show ?case by simp
next
  case (Cons d ds)
  obtain dx dy where d: "d = (dx, dy)" by (cases d)
  with Cons.prems have nz: "\<not> (dx = 0 \<and> dy = 0)" by auto
  obtain l where "walk b me other dx dy (x0 + dx) (y0 + dy) [] = Inr l"
    using walk_total[OF Cons.prems(1) nz] by blast
  then show ?case using Cons d by simp
qed

lemma DIRECTIONS_nonzero: "(0, 0) \<notin> set DIRECTIONS"
  by (simp add: DIRECTIONS_def)

lemma discs_to_flip_total: "square b \<Longrightarrow> \<exists>fl. discs_to_flip b colour x0 y0 = Inr fl"
  using flip_dirs_total[OF _ DIRECTIONS_nonzero]
  by (auto simp: discs_to_flip_def Let_def get_cell_square)

lemma legal_move_total: "square b \<Longrightarrow> \<exists>r. legal_move colour coord b = Inr r"
  using discs_to_flip_total[of b colour "fst coord - 1" "snd coord - 1"]
  by (auto simp: legal_move_def Let_def)

lemma scan_row_total:
  "\<forall>x \<in> set xs. \<exists>r. legal_move colour (x, y) b = Inr r \<Longrightarrow>
   scan_row colour b y xs = Inr (\<exists>x \<in> set xs. legal_move colour (x, y) b = Inr True)"
  by (induction xs) (auto split: sum.splits bool.splits)

lemma scan_rows_total:
  "\<forall>y \<in> set ys. \<forall>x \<in> {1 .. int (length b)}. \<exists>r. legal_move colour (x, y) b = Inr r \<Longrightarrow>
   scan_rows colour b ys =
     Inr (\<exists>y \<in> set ys. \<exists>x \<in> {1 .. int (length b)}. legal_move colour (x, y) b = Inr True)"
proof (induction ys)
  case Nil
  then show ?case by simp
next
  case (Cons y ys)
  have row: "scan_row colour b y [1 .. int (length b)] =
      Inr (\<exists>x \<in> {1 .. int (length b)}. legal_move colour (x, y) b = Inr True)"
    using scan_row_total[of "[1 .. int (length b)]" colour y b] Cons.prems by simp
  show ?case using Cons row by (auto split: sum.splits bool.splits)
qed

lemma has_any_legal_moves_square:
  "square b \<Longrightarrow>
   has_any_legal_moves colour b =
     Inr (\<exists>y \<in> {1 .. int (length b)}. \<exists>x \<in> {1 .. int (length b)}.
            legal_move colour (x, y) b = Inr True)"
  using scan_rows_total[of "[1 .. int (length b)]" b colour] legal_move_total[of b colour]
  by (simp add: has_any_legal_moves_def)

section \<open>The standard opening position\<close>

lemma initialise_board_8: "initialise_board 8 = Inr standard_board"
  by code_simp

lemma length_standard_board: "length standard_board = 8"
  by code_simp

lemma standard_board_inside_Black:
  "\<forall>x \<in> set [1 .. 8]. \<forall>y \<in> set [1 .. 8].
     (legal_move ''Black'' (x, y) standard_board = Inr True) =
     ((x, y) \<in> set [(3, 4), (4, 3), (5, 6), (6, 5)])"
  by code_simp

lemma standard_board_inside_White:
  "\<forall>x \<in> set [1 .. 8]. \<forall>y \<in> set [1 .. 8].
     (legal_move ''White'' (x, y) standard_board = Inr True) =
     ((x, y) \<in> set [(3, 5), (4, 6), (5, 3), (6, 4)])"
  by code_simp

lemma legal_move_outside:
  "\<not> (1 \<le> x \<and> x \<le> int (length b) \<and> 1 \<le> y \<and> y \<le> int (length b)) \<Longrightarrow>
   legal_move colour (x, y) b = Inr False"
  by (auto simp: legal_move_def Let_def)

text \<open>
  C7, as stated, fails: on the opening position \<open>legal_move\<close> accepts White at C5,
  the 1-based coordinate (3, 5), although Black has not moved.
\<close>

theorem White_opening_counterexample:
  "initialise_board 8 = Inr standard_board \<and>
   legal_move ''White'' (3, 5) standard_board = Inr True"
  by code_simp

text \<open>
  C7, amended: on the standard 8 by 8 opening position \<open>legal_move\<close> returns true
  for Black at exactly C4, D3, E6 and F5, and for White at exactly C5, D6, E3 and F4;
  \<open>legal_move\<close> does not know whose turn it is.
\<close>

theorem opening_legal_moves:
  "initialise_board 8 = Inr standard_board \<and>
   (\<forall>x y. legal_move ''Black'' (x, y) standard_board = Inr True
      \<longleftrightarrow> (x, y) \<in> {(3, 4), (4, 3), (5, 6), (6, 5)}) \<and>
   (\<forall>x y. legal_move ''White'' (x, y) standard_board = Inr True
      \<longleftrightarrow> (x, y) \<in> {(3, 5), (4, 6), (5, 3), (6, 4)})"
proof (intro conjI allI)
  show "initialise_board 8 = Inr standard_board" by (rule initialise_board_8)
next
  fix x y :: int
  show "legal_move ''Black'' (x, y) standard_board = Inr True
      \<longleftrightarrow> (x, y) \<in> {(3, 4), (4, 3), (5, 6), (6, 5)}"
  proof (cases "1 \<le> x \<and> x \<le> 8 \<and> 1 \<le> y \<and> y \<le> 8")
    case True
    then have "x \<in> set [1 .. 8]" "y \<in> set [1 .. 8]" by simp_all
    then show ?thesis using standard_board_inside_Black by simp
  next
    case False
    then have "legal_move ''Black'' (x, y) standard_board = Inr False"
      using legal_move_outside[of x standard_board y] by (simp add: length_standard_board)
    then show ?thesis using False by auto
  qed
next
  fix x y :: int
  show "legal_move ''White'' (x, y) standard_board = Inr True
      \<longleftrightarrow> (x, y) \<in> {(3, 5), (4, 6), (5, 3), (6, 4)}"
  proof (cases "1 \<le> x \<and> x \<le> 8 \<and> 1 \<le> y \<and> y \<le> 8")
    case True
    then have "x \<in> set [1 .. 8]" "y \<in> set [1 .. 8]" by simp_all
    then show ?thesis using standard_board_inside_White by simp
  next
    case False
    then have "legal_move ''White'' (x, y) standard_board = Inr False"
      using legal_move_outside[of x standard_board y] by (simp add: length_standard_board)
    then show ?thesis using False by auto
  qed
qed

section \<open>Colour strings\<close>

lemma discs_to_flip_strip:
  "strip colour = strip colour' \<Longrightarrow>
   discs_to_flip b colour x0 y0 = discs_to_flip b colour' x0 y0"
  by (simp add: discs_to_flip_def Let_def split: sum.splits)

lemma discs_to_flip_other_colour:
  assumes "strip colour \<noteq> ''Black''" "strip colour \<noteq> ''White''"
    and "get_cell b x0 y0 = Inr c"
  shows "discs_to_flip b colour x0 y0 = Inr []"
  using assms by (simp add: discs_to_flip_def Let_def)

text \<open>
  C4, as stated, fails: the comparison is case-sensitive. On the opening position, at
  the empty cell (2, 3), \<^verbatim>\<open>black\<close> flips nothing where \<^verbatim>\<open>Black\<close> flips the disc at
  (3, 3); at the empty cell (2, 4), \<^verbatim>\<open> WHITE \<close> flips nothing where \<^verbatim>\<open>White\<close> flips
  the disc at (3, 4).
\<close>

theorem colour_case_counterexample:
  "get_cell standard_board 2 3 = Inr ''None '' \<and>
   discs_to_flip standard_board ''black'' 2 3 = Inr [] \<and>
   discs_to_flip standard_board ''Black'' 2 3 = Inr [(3, 3)] \<and>
   get_cell standard_board 2 4 = Inr ''None '' \<and>
   discs_to_flip standard_board '' WHITE '' 2 4 = Inr [] \<and>
   discs_to_flip standard_board ''White'' 2 4 = Inr [(3, 4)]"
  by code_simp

text \<open>
  C4, amended: \<open>discs_to_flip\<close> compares the colour with \<^verbatim>\<open>Black\<close> and \<^verbatim>\<open>White\<close>
  after \<^verbatim>\<open>strip\<close>, so insensitively to surrounding whitespace and sensitively to letter
  case. On every board and cell, a colour that is \<^verbatim>\<open>Black\<close> or \<^verbatim>\<open>White\<close> up to
  surrounding whitespace gives the result of the canonical string; any other colour
  (\<^verbatim>\<open>black\<close>, \<^verbatim>\<open> WHITE \<close>) gives the empty flip set at every cell that can be read, in
  particular at an empty cell in bounds.
\<close>

theorem discs_to_flip_colour:
  "(strip colour = ''Black'' \<longrightarrow>
      discs_to_flip b colour x0 y0 = discs_to_flip b ''Black'' x0 y0) \<and>
   (strip colour = ''White'' \<longrightarrow>
      discs_to_flip b colour x0 y0 = discs_to_flip b ''White'' x0 y0) \<and>
   (strip colour \<notin> {''Black'', ''White''} \<and> 0 \<le> x0 \<and> x0 < int (length b) \<and>
    0 \<le> y0 \<and> y0 < int (length b) \<and> get_cell b x0 y0 = Inr c \<and> strip c = ''None'' \<longrightarrow>
      discs_to_flip b colour x0 y0 = Inr [])"
  using discs_to_flip_strip[of colour "''Black''" b x0 y0]
    discs_to_flip_strip[of colour "''White''" b x0 y0]
    discs_to_flip_other_colour[of colour b x0 y0 c]
  by (simp add: strip_Black strip_White)

theorem discs_to_flip_colour_witness:
  "strip '' Black '' = ''Black'' \<and>
   discs_to_flip standard_board '' Black '' 2 3 = discs_to_flip standard_board ''Black'' 2 3 \<and>
   discs_to_flip standard_board ''Black'' 2 3 = Inr [(3, 3)] \<and>
   strip ''White  '' = ''White'' \<and>
   discs_to_flip standard_board ''White  '' 2 4 = discs_to_flip standard_board ''White'' 2 4 \<and>
   discs_to_flip standard_board ''White'' 2 4 = Inr [(3, 4)] \<and>
   strip '' WHITE '' \<notin> {''Black'', ''White''} \<and> (0::int) \<le> 2 \<and>
   2 < int (length standard_board) \<and> (0::int) \<le> 3 \<and> 3 < int (length standard_board) \<and>
   get_cell standard_board 2 3 = Inr ''None '' \<and> strip ''None '' = ''None'' \<and>
   discs_to_flip standard_board '' WHITE '' 2 3 = Inr []"
proof -
  have s1: "strip '' Black '' = ''Black''" and s2: "strip ''White  '' = ''White''"
    and s3: "strip '' WHITE '' \<notin> {''Black'', ''White''}" and s4: "strip ''None '' = ''None''"
    by (simp_all add: strip_def is_space_def)
  have g: "get_cell standard_board 2 3 = Inr ''None ''" by code_simp
  have v: "discs_to_flip standard_board ''Black'' 2 3 = Inr [(3, 3)]"
    "discs_to_flip standard_board ''White'' 2 4 = Inr [(3, 4)]" by code_simp+
  show ?thesis
    using discs_to_flip_colour[of "'' Black ''" standard_board 2 3 "''None ''"]
      discs_to_flip_colour[of "''White  ''" standard_board 2 4 "''None ''"]
      discs_to_flip_colour[of "'' WHITE ''" standard_board 2 3 "''None ''"]
      s1 s2 s3 s4 g v
    by (simp add: length_standard_board)
qed

section \<open>The piece that \<open>apply_move\<close> writes\<close>

lemma py_index_Inr: "py_index xs i = Inr j \<Longrightarrow> j < length xs"
  by (auto simp: py_index_def Let_def split: if_splits)

lemma py_index_length: "length xs = length ys \<Longrightarrow> py_index xs i = py_index ys i"
  by (simp add: py_index_def)

lemma set_cell_Inr:
  assumes "set_cell b x y v = Inr b1"
  obtains j i where "py_index b y = Inr j" "py_index (b ! j) x = Inr i"
    "j < length b" "i < length (b ! j)" "b1 = b[j := (b ! j)[i := v]]"
proof -
  from assms obtain j where j: "py_index b y = Inr j"
    by (auto simp: set_cell_def split: sum.splits)
  with assms obtain i where i: "py_index (b ! j) x = Inr i"
    by (auto simp: set_cell_def split: sum.splits)
  from assms j i have "b1 = b[j := (b ! j)[i := v]]" by (simp add: set_cell_def)
  with j i that show thesis by (blast dest: py_index_Inr)
qed

lemma get_cell_update:
  assumes "j < length b" "i < length (b ! j)"
  shows "get_cell (b[j := (b ! j)[i := v]]) x y =
     (case py_index b y of
        Inl e \<Rightarrow> Inl e
      | Inr j' \<Rightarrow>
          (case py_index (b ! j') x of
             Inl e \<Rightarrow> Inl e
           | Inr i' \<Rightarrow> Inr (if j' = j \<and> i' = i then v else b ! j' ! i')))"
proof (cases "py_index b y")
  case (Inl e)
  then show ?thesis by (simp add: get_cell_def py_index_length[of "b[j := r]" b for r])
next
  case (Inr j')
  then have j': "j' < length b" by (rule py_index_Inr)
  have row: "py_index (b[j := (b ! j)[i := v]] ! j') x = py_index (b ! j') x"
    using assms j' by (cases "j' = j") (simp_all add: py_index_length[of "xs[i := v]" xs for xs])
  show ?thesis
  proof (cases "py_index (b ! j') x")
    case (Inl e)
    then show ?thesis
      using Inr row by (simp add: get_cell_def py_index_length[of "b[j := r]" b for r])
  next
    case i': (Inr i')
    then have "i' < length (b ! j')" by (rule py_index_Inr)
    then show ?thesis
      using Inr row i' assms j'
      by (cases "j' = j")
        (auto simp: get_cell_def py_index_length[of "b[j := r]" b for r] nth_list_update)
  qed
qed

lemma set_cell_get_same:
  assumes "set_cell b x y v = Inr b1"
  shows "get_cell b1 x y = Inr v"
proof -
  from assms obtain j i where "py_index b y = Inr j" "py_index (b ! j) x = Inr i"
    "j < length b" "i < length (b ! j)" "b1 = b[j := (b ! j)[i := v]]"
    by (rule set_cell_Inr)
  then show ?thesis by (simp add: get_cell_update)
qed

lemma set_cell_get_keep:
  assumes "set_cell b x y v = Inr b1" and "get_cell b x' y' = Inr v"
  shows "get_cell b1 x' y' = Inr v"
proof -
  from assms(1) obtain j i where "py_index b y = Inr j" "py_index (b ! j) x = Inr i"
    "j < length b" "i < length (b ! j)" "b1 = b[j := (b ! j)[i := v]]"
    by (rule set_cell_Inr)
  then have "get_cell b1 x' y' =
     (case py_index b y' of
        Inl e \<Rightarrow> Inl e
      | Inr j' \<Rightarrow>
          (case py_index (b ! j') x' of
             Inl e \<Rightarrow> Inl e
           | Inr i' \<Rightarrow> Inr (if j' = j \<and> i' = i then v else b ! j' ! i')))"
    by (simp add: get_cell_update)
  then show ?thesis
    using assms(2) by (auto simp: get_cell_def split: sum.splits)
qed

lemma set_flips_written:
  "set_flips b fs v = Inr b' \<Longrightarrow>
   (\<forall>(fx, fy) \<in> set fs. get_cell b' fx fy = Inr v) \<and>
   (\<forall>x y. get_cell b x y = Inr v \<longrightarrow> get_cell b' x y = Inr v)"
proof (induction fs arbitrary: b)
  case Nil
  then show ?case by simp
next
  case (Cons f fs)
  obtain fx fy where f: "f = (fx, fy)" by (cases f)
  from Cons.prems f obtain b1 where b1: "set_cell b fx fy v = Inr b1"
    and rest: "set_flips b1 fs v = Inr b'"
    by (auto split: sum.splits)
  from Cons.IH[OF rest] set_cell_get_same[OF b1] set_cell_get_keep[OF b1]
  show ?case using f by auto
qed

text \<open>
  C9: \<open>apply_move\<close> compares the colour with \<^verbatim>\<open>Black\<close> as it is given. For every
  colour other than exactly \<^verbatim>\<open>Black\<close>, whenever the call returns, the placed cell and
  every cell of the flip set hold \<^verbatim>\<open>White\<close>. So it is for \<^verbatim>\<open> Black \<close>, which
  \<open>legal_move\<close> accepts on the opening position at C4 as a move of Black: the call
  writes White at (2, 3) and leaves the white disc at (3, 3) white.
\<close>

theorem apply_move_untrimmed_colour:
  "(colour \<noteq> ''Black'' \<and> apply_move colour (x, y) b = Inr (n, b') \<and>
    discs_to_flip b colour (x - 1) (y - 1) = Inr flips \<longrightarrow>
      get_cell b' (x - 1) (y - 1) = Inr WHITE \<and>
      (\<forall>(fx, fy) \<in> set flips. get_cell b' fx fy = Inr WHITE)) \<and>
   legal_move '' Black '' (3, 4) standard_board = Inr True \<and>
   discs_to_flip standard_board '' Black '' 2 3 = Inr [(3, 3)] \<and>
   apply_move '' Black '' (3, 4) standard_board =
     Inr (1, standard_board[3 := (standard_board ! 3)[2 := WHITE]])"
proof (intro conjI impI)
  assume a: "colour \<noteq> ''Black'' \<and> apply_move colour (x, y) b = Inr (n, b') \<and>
    discs_to_flip b colour (x - 1) (y - 1) = Inr flips"
  then obtain b1 where b1: "set_cell b (x - 1) (y - 1) WHITE = Inr b1"
    and b': "set_flips b1 flips WHITE = Inr b'"
    by (auto simp: apply_move_def Let_def split: sum.splits)
  from set_flips_written[OF b'] set_cell_get_same[OF b1]
  show "get_cell b' (x - 1) (y - 1) = Inr WHITE"
    and "\<forall>(fx, fy) \<in> set flips. get_cell b' fx fy = Inr WHITE"
    by blast+
qed code_simp+

theorem apply_move_untrimmed_colour_witness:
  "''Green'' \<noteq> ''Black'' \<and>
   apply_move ''Green'' (1, 1) standard_board =
     Inr (0, standard_board[0 := (standard_board ! 0)[0 := WHITE]]) \<and>
   discs_to_flip standard_board ''Green'' (1 - 1) (1 - 1) = Inr [] \<and>
   get_cell (standard_board[0 := (standard_board ! 0)[0 := WHITE]]) (1 - 1) (1 - 1) = Inr WHITE \<and>
   '' Black '' \<noteq> ''Black'' \<and>
   apply_move '' Black '' (3, 4) standard_board =
     Inr (1, standard_board[3 := (standard_board ! 3)[2 := WHITE]]) \<and>
   discs_to_flip standard_board '' Black '' (3 - 1) (4 - 1) = Inr [(3, 3)] \<and>
   get_cell (standard_board[3 := (standard_board ! 3)[2 := WHITE]]) (3 - 1) (4 - 1) = Inr WHITE \<and>
   get_cell (standard_board[3 := (standard_board ! 3)[2 := WHITE]]) 3 3 = Inr WHITE"
proof -
  have g: "apply_move ''Green'' (1, 1) standard_board =
     Inr (0, standard_board[0 := (standard_board ! 0)[0 := WHITE]])"
    "discs_to_flip standard_board ''Green'' (1 - 1) (1 - 1) = Inr []"
    by code_simp+
  have k: "apply_move '' Black '' (3, 4) standard_board =
     Inr (1, standard_board[3 := (standard_board ! 3)[2 := WHITE]])"
    "discs_to_flip standard_board '' Black '' (3 - 1) (4 - 1) = Inr [(3, 3)]"
    by code_simp+
  show ?thesis
    using apply_move_untrimmed_colour[of "''Green''" 1 1 standard_board 0
        "standard_board[0 := (standard_board ! 0)[0 := WHITE]]" "[]"]
      apply_move_untrimmed_colour[of "'' Black ''" 3 4 standard_board 1
        "standard_board[3 := (standard_board ! 3)[2 := WHITE]]" "[(3, 3)]"]
      g k
    by simp
qed

section \<open>\<open>apply_move\<close> on an illegal move\<close>

text \<open>
  C1: the claim is that \<open>apply_move\<close> on an illegal move returns 0 and leaves every cell
  as it was. The guard that would do so (\<^verbatim>\<open>if not flips: return 0\<close>) is commented
  out in the source, and the code writes the piece all the same. On the opening
  position, Black at A1 is illegal; \<open>apply_move\<close> returns 0 and puts a black disc on
  the empty cell (0, 0). Black at D4 is illegal; \<open>apply_move\<close> returns 0 and turns the
  white disc at (3, 3) black.
\<close>

theorem apply_move_illegal_writes:
  "legal_move ''Black'' (1, 1) standard_board = Inr False \<and>
   get_cell standard_board 0 0 = Inr EMPTY \<and>
   apply_move ''Black'' (1, 1) standard_board =
     Inr (0, standard_board[0 := (standard_board ! 0)[0 := BLACK]]) \<and>
   get_cell (standard_board[0 := (standard_board ! 0)[0 := BLACK]]) 0 0 = Inr BLACK \<and>
   legal_move ''Black'' (4, 4) standard_board = Inr False \<and>
   get_cell standard_board 3 3 = Inr WHITE \<and>
   apply_move ''Black'' (4, 4) standard_board =
     Inr (0, standard_board[3 := (standard_board ! 3)[3 := BLACK]]) \<and>
   get_cell (standard_board[3 := (standard_board ! 3)[3 := BLACK]]) 3 3 = Inr BLACK"
  by code_simp

text \<open>
  C3: the claim is that neither \<open>legal_move\<close> nor \<open>apply_move\<close> ever raises. With the
  guard of \<open>apply_move\<close> commented out, the assignment \<^verbatim>\<open>board[y0][x0] = piece\<close> is
  reached for a coordinate off the board: on the opening position \<open>legal_move\<close>
  answers false for (9, 9), and \<open>apply_move\<close> raises \<^verbatim>\<open>IndexError\<close>.
\<close>

theorem apply_move_out_of_bounds_raises:
  "legal_move ''Black'' (9, 9) standard_board = Inr False \<and>
   apply_move ''Black'' (9, 9) standard_board = Inl IndexError"
  by code_simp

section \<open>The cells of a flip set\<close>

lemma get_cell_exists:
  "cell_exists b p \<Longrightarrow> get_cell b (fst p) (snd p) = Inr (b ! nat (snd p) ! nat (fst p))"
  by (simp add: cell_exists_def get_cell_nonneg)

lemma get_cell_Inr_exists:
  "0 \<le> x \<Longrightarrow> 0 \<le> y \<Longrightarrow> get_cell b x y = Inr c \<Longrightarrow> cell_exists b (x, y)"
  by (auto simp: cell_exists_def get_cell_nonneg split: if_splits)

lemma set_cell_exists:
  "cell_exists b p \<Longrightarrow>
   set_cell b (fst p) (snd p) v = Inr (b[nat (snd p) := (b ! nat (snd p))[nat (fst p) := v]])"
  by (simp add: cell_exists_def set_cell_nonneg)

lemma cell_exists_update:
  "cell_exists (b[j := (b ! j)[i := v]]) q = cell_exists b q"
  by (cases "j < length b") (auto simp: cell_exists_def nth_list_update)

lemma walk_cells:
  "walk b me other dx dy cx cy line = Inr l \<Longrightarrow>
   \<forall>p \<in> set line. cell_exists b p \<and> (\<exists>c. get_cell b (fst p) (snd p) = Inr c \<and> strip c = other) \<Longrightarrow>
   \<forall>p \<in> set l. cell_exists b p \<and> (\<exists>c. get_cell b (fst p) (snd p) = Inr c \<and> strip c = other)"
proof (induction b me other dx dy cx cy line rule: walk.induct)
  case (1 board me other dx dy cx cy line)
  show ?case
  proof (cases "0 \<le> cx \<and> cx < int (length board) \<and> 0 \<le> cy \<and> cy < int (length board)")
    case False
    with "1.prems"(1) show ?thesis by (simp add: walk_outside)
  next
    case True
    with "1.prems"(1) obtain c where c: "get_cell board cx cy = Inr c"
      by (auto simp: walk_inside split: sum.splits)
    show ?thesis
    proof (cases "strip c = other")
      case other: True
      with "1.prems"(1) True c have nz: "\<not> (dx = 0 \<and> dy = 0)"
        and rec: "walk board me other dx dy (cx + dx) (cy + dy) (line @ [(cx, cy)]) = Inr l"
        by (auto simp: walk_inside split: if_splits)
      have "cell_exists board (cx, cy)"
        using True c by (auto intro: get_cell_Inr_exists)
      with "1.prems"(2) c other
      have "\<forall>p \<in> set (line @ [(cx, cy)]).
          cell_exists board p \<and> (\<exists>c. get_cell board (fst p) (snd p) = Inr c \<and> strip c = other)"
        by auto
      from "1.IH"[OF refl True c refl other nz rec this] show ?thesis .
    next
      case False
      with "1.prems" True c show ?thesis
        by (auto simp: walk_inside split: if_splits)
    qed
  qed
qed

lemma flip_dirs_cells:
  "flip_dirs b me other x0 y0 ds flips = Inr fl \<Longrightarrow>
   \<forall>p \<in> set flips. cell_exists b p \<and> (\<exists>c. get_cell b (fst p) (snd p) = Inr c \<and> strip c = other) \<Longrightarrow>
   \<forall>p \<in> set fl. cell_exists b p \<and> (\<exists>c. get_cell b (fst p) (snd p) = Inr c \<and> strip c = other)"
proof (induction ds arbitrary: flips)
  case Nil
  then show ?case by simp
next
  case (Cons d ds)
  obtain dx dy where d: "d = (dx, dy)" by (cases d)
  from Cons.prems(1) d obtain l where l: "walk b me other dx dy (x0 + dx) (y0 + dy) [] = Inr l"
    and rest: "flip_dirs b me other x0 y0 ds (flips @ l) = Inr fl"
    by (auto split: sum.splits)
  from walk_cells[OF l] Cons.prems(2)
  have "\<forall>p \<in> set (flips @ l).
      cell_exists b p \<and> (\<exists>c. get_cell b (fst p) (snd p) = Inr c \<and> strip c = other)"
    by auto
  from Cons.IH[OF rest this] show ?case .
qed

text \<open>What a non-empty result of \<open>discs_to_flip\<close> says about the target and the colour.\<close>

lemma discs_to_flip_nonempty:
  assumes "discs_to_flip b colour x0 y0 = Inr fl" "fl \<noteq> []"
  obtains c where "cell_exists b (x0, y0)" "get_cell b x0 y0 = Inr c" "strip c = ''None''"
    "strip colour = ''Black'' \<or> strip colour = ''White''"
    "flip_dirs b (strip colour) (if strip colour = ''Black'' then ''White'' else ''Black'')
       x0 y0 DIRECTIONS [] = Inr fl"
proof -
  from assms have inb: "0 \<le> x0" "0 \<le> y0"
    by (auto simp: discs_to_flip_def Let_def split: if_splits)
  from assms inb obtain c where c: "get_cell b x0 y0 = Inr c"
    by (auto simp: discs_to_flip_def Let_def split: if_splits sum.splits)
  from assms c have "strip c = ''None''"
    "strip colour = ''Black'' \<or> strip colour = ''White''"
    "flip_dirs b (strip colour) (if strip colour = ''Black'' then ''White'' else ''Black'')
       x0 y0 DIRECTIONS [] = Inr fl"
    by (auto simp: discs_to_flip_def Let_def split: if_splits)
  with that c get_cell_Inr_exists[OF inb c] show thesis by blast
qed

lemma discs_to_flip_cells:
  assumes "discs_to_flip b colour x0 y0 = Inr fl"
  shows "\<forall>p \<in> set fl. cell_exists b p \<and>
     (\<exists>c. get_cell b (fst p) (snd p) = Inr c \<and>
          strip c = (if strip colour = ''Black'' then ''White'' else ''Black''))"
proof (cases "fl = []")
  case True
  then show ?thesis by simp
next
  case False
  with assms have
    "flip_dirs b (strip colour) (if strip colour = ''Black'' then ''White'' else ''Black'')
       x0 y0 DIRECTIONS [] = Inr fl"
    by (rule discs_to_flip_nonempty)
  from flip_dirs_cells[OF this] show ?thesis by simp
qed

lemma set_flips_exists:
  "\<forall>p \<in> set fs. cell_exists b p \<Longrightarrow> \<exists>b'. set_flips b fs v = Inr b'"
proof (induction fs arbitrary: b)
  case Nil
  then show ?case by simp
next
  case (Cons f fs)
  obtain fx fy where f: "f = (fx, fy)" by (cases f)
  let ?b1 = "b[nat fy := (b ! nat fy)[nat fx := v]]"
  have s: "set_cell b fx fy v = Inr ?b1"
    using set_cell_exists[of b f v] Cons.prems f by simp
  have "\<forall>p \<in> set fs. cell_exists ?b1 p"
    using Cons.prems by (simp add: cell_exists_update)
  from Cons.IH[OF this] show ?case using s f by simp
qed

lemma apply_move_returns:
  assumes "discs_to_flip b colour (x - 1) (y - 1) = Inr fl" "cell_exists b (x - 1, y - 1)"
  shows "\<exists>b'. apply_move colour (x, y) b = Inr (length fl, b')"
proof -
  let ?piece = "if colour = ''Black'' then BLACK else WHITE"
  let ?b1 = "b[nat (y - 1) := (b ! nat (y - 1))[nat (x - 1) := ?piece]]"
  have s: "set_cell b (x - 1) (y - 1) ?piece = Inr ?b1"
    using set_cell_exists[OF assms(2), of ?piece] by simp
  have "\<forall>p \<in> set fl. cell_exists ?b1 p"
    using discs_to_flip_cells[OF assms(1)] by (simp add: cell_exists_update)
  from set_flips_exists[OF this] obtain b' where "set_flips ?b1 fl ?piece = Inr b'" by blast
  with s assms(1) show ?thesis by (simp add: apply_move_def Let_def)
qed

section \<open>Legality is a non-empty flip set\<close>

lemma legal_move_inside:
  "1 \<le> x \<Longrightarrow> x \<le> int (length b) \<Longrightarrow> 1 \<le> y \<Longrightarrow> y \<le> int (length b) \<Longrightarrow>
   legal_move colour (x, y) b =
     (case discs_to_flip b colour (x - 1) (y - 1) of
        Inl e \<Rightarrow> Inl e
      | Inr flips \<Rightarrow> Inr (flips \<noteq> []))"
  by (simp add: legal_move_def Let_def split: sum.splits)

lemma square_standard_board: "square standard_board"
  by code_simp

text \<open>
  C2: for every board, every colour string (so for \<^verbatim>\<open>Black\<close> and \<^verbatim>\<open>White\<close>) and every
  1-based coordinate on the board, \<open>legal_move\<close> returns true exactly when
  \<open>discs_to_flip\<close> returns a non-empty flip set for the 0-based cell, and exactly when
  \<open>apply_move\<close> would return a positive number of flips; on a square board both
  functions return, so a move with no flips is answered false. A coordinate off the
  board is always answered false.
\<close>

theorem legal_move_iff_flips:
  "(1 \<le> x \<and> x \<le> int (length b) \<and> 1 \<le> y \<and> y \<le> int (length b) \<longrightarrow>
      (legal_move colour (x, y) b = Inr True \<longleftrightarrow>
         (\<exists>fl. discs_to_flip b colour (x - 1) (y - 1) = Inr fl \<and> fl \<noteq> [])) \<and>
      (legal_move colour (x, y) b = Inr True \<longleftrightarrow>
         (\<exists>n b'. apply_move colour (x, y) b = Inr (n, b') \<and> 0 < n)) \<and>
      (square b \<longrightarrow>
         (\<exists>fl. discs_to_flip b colour (x - 1) (y - 1) = Inr fl \<and>
               legal_move colour (x, y) b = Inr (fl \<noteq> [])))) \<and>
   (\<not> (1 \<le> x \<and> x \<le> int (length b) \<and> 1 \<le> y \<and> y \<le> int (length b)) \<longrightarrow>
      legal_move colour (x, y) b = Inr False)"
proof (intro conjI impI)
  assume inb: "1 \<le> x \<and> x \<le> int (length b) \<and> 1 \<le> y \<and> y \<le> int (length b)"
  then have lm: "legal_move colour (x, y) b =
     (case discs_to_flip b colour (x - 1) (y - 1) of
        Inl e \<Rightarrow> Inl e
      | Inr flips \<Rightarrow> Inr (flips \<noteq> []))"
    by (simp add: legal_move_inside)
  show iff1: "legal_move colour (x, y) b = Inr True \<longleftrightarrow>
      (\<exists>fl. discs_to_flip b colour (x - 1) (y - 1) = Inr fl \<and> fl \<noteq> [])"
    by (auto simp: lm split: sum.splits)
  show "legal_move colour (x, y) b = Inr True \<longleftrightarrow>
      (\<exists>n b'. apply_move colour (x, y) b = Inr (n, b') \<and> 0 < n)"
  proof
    assume "legal_move colour (x, y) b = Inr True"
    with iff1 obtain fl where fl: "discs_to_flip b colour (x - 1) (y - 1) = Inr fl" "fl \<noteq> []"
      by blast
    then have "cell_exists b (x - 1, y - 1)" by (rule discs_to_flip_nonempty)
    from apply_move_returns[OF fl(1) this] fl(2) show
      "\<exists>n b'. apply_move colour (x, y) b = Inr (n, b') \<and> 0 < n"
      by auto
  next
    assume "\<exists>n b'. apply_move colour (x, y) b = Inr (n, b') \<and> 0 < n"
    then have "\<exists>fl. discs_to_flip b colour (x - 1) (y - 1) = Inr fl \<and> fl \<noteq> []"
      by (auto simp: apply_move_def Let_def split: sum.splits)
    with iff1 show "legal_move colour (x, y) b = Inr True" by simp
  qed
  assume "square b"
  then obtain fl where "discs_to_flip b colour (x - 1) (y - 1) = Inr fl"
    using discs_to_flip_total by blast
  then show "\<exists>fl. discs_to_flip b colour (x - 1) (y - 1) = Inr fl \<and>
      legal_move colour (x, y) b = Inr (fl \<noteq> [])"
    by (simp add: lm)
next
  assume "\<not> (1 \<le> x \<and> x \<le> int (length b) \<and> 1 \<le> y \<and> y \<le> int (length b))"
  then show "legal_move colour (x, y) b = Inr False" by (rule legal_move_outside)
qed

theorem legal_move_iff_flips_witness:
  "(1::int) \<le> 3 \<and> 3 \<le> int (length standard_board) \<and> (1::int) \<le> 4 \<and>
   4 \<le> int (length standard_board) \<and> square standard_board \<and>
   legal_move ''Black'' (3, 4) standard_board = Inr True \<and>
   discs_to_flip standard_board ''Black'' (3 - 1) (4 - 1) = Inr [(3, 3)] \<and>
   (\<exists>n b'. apply_move ''Black'' (3, 4) standard_board = Inr (n, b') \<and> 0 < n) \<and>
   legal_move ''Black'' (1, 1) standard_board = Inr False \<and>
   discs_to_flip standard_board ''Black'' (1 - 1) (1 - 1) = Inr [] \<and>
   \<not> (\<exists>n b'. apply_move ''Black'' (1, 1) standard_board = Inr (n, b') \<and> 0 < n) \<and>
   \<not> ((1::int) \<le> 9 \<and> 9 \<le> int (length standard_board) \<and> (1::int) \<le> 9 \<and>
      9 \<le> int (length standard_board)) \<and>
   legal_move ''Black'' (9, 9) standard_board = Inr False"
proof -
  have v: "legal_move ''Black'' (3, 4) standard_board = Inr True"
    "discs_to_flip standard_board ''Black'' (3 - 1) (4 - 1) = Inr [(3, 3)]"
    "legal_move ''Black'' (1, 1) standard_board = Inr False"
    "discs_to_flip standard_board ''Black'' (1 - 1) (1 - 1) = Inr []"
    by code_simp+
  show ?thesis
    using legal_move_iff_flips[of 3 standard_board 4 "''Black''"]
      legal_move_iff_flips[of 1 standard_board 1 "''Black''"]
      legal_move_iff_flips[of 9 standard_board 9 "''Black''"]
      v square_standard_board
    by (simp add: length_standard_board)
qed

section \<open>A board without an empty cell\<close>

lemma discs_to_flip_no_empty:
  assumes "square b" "no_empty_cell b"
  shows "discs_to_flip b colour x0 y0 = Inr []"
proof (cases "0 \<le> x0 \<and> x0 < int (length b) \<and> 0 \<le> y0 \<and> y0 < int (length b)")
  case False
  then show ?thesis by (auto simp: discs_to_flip_def Let_def)
next
  case True
  then have g: "get_cell b x0 y0 = Inr (b ! nat y0 ! nat x0)"
    using assms(1) by (simp add: get_cell_square)
  have row: "b ! nat y0 \<in> set b" using True by (intro nth_mem) linarith
  then have "length (b ! nat y0) = length b" using assms(1) by (simp add: square_def)
  then have "b ! nat y0 ! nat x0 \<in> set (b ! nat y0)" using True by (intro nth_mem) linarith
  with row assms(2) have "strip (b ! nat y0 ! nat x0) \<noteq> ''None''"
    by (simp add: no_empty_cell_def)
  with g True show ?thesis by (simp add: discs_to_flip_def Let_def)
qed

lemma legal_move_no_empty:
  assumes "square b" "no_empty_cell b"
  shows "legal_move colour coord b = Inr False"
  using discs_to_flip_no_empty[OF assms] by (simp add: legal_move_def Let_def)

text \<open>
  C8: on every square board in which no cell is empty, \<open>has_any_legal_moves\<close> returns
  false for Black and for White, and \<open>is_game_finished\<close> returns true.
\<close>

theorem full_board_is_terminal:
  assumes "square b" and "no_empty_cell b"
  shows "has_any_legal_moves ''Black'' b = Inr False \<and>
         has_any_legal_moves ''White'' b = Inr False \<and>
         is_game_finished b = Inr True"
proof -
  have "has_any_legal_moves colour b = Inr False" for colour
    using assms by (simp add: has_any_legal_moves_square legal_move_no_empty)
  then show ?thesis by (simp add: is_game_finished_def)
qed

theorem full_board_is_terminal_witness:
  "square [[''Black'', ''White''], [''White'', ''Black'']] \<and>
   no_empty_cell [[''Black'', ''White''], [''White'', ''Black'']] \<and>
   has_any_legal_moves ''Black'' [[''Black'', ''White''], [''White'', ''Black'']] = Inr False \<and>
   has_any_legal_moves ''White'' [[''Black'', ''White''], [''White'', ''Black'']] = Inr False \<and>
   is_game_finished [[''Black'', ''White''], [''White'', ''Black'']] = Inr True"
proof -
  have s: "square [[''Black'', ''White''], [''White'', ''Black'']]"
    by (simp add: square_def)
  have n: "no_empty_cell [[''Black'', ''White''], [''White'', ''Black'']]"
    by (simp add: no_empty_cell_def strip_def is_space_def)
  from full_board_is_terminal[OF s n] s n show ?thesis by simp
qed

section \<open>The next player after a move\<close>

lemma set_cell_square:
  assumes "set_cell b x y v = Inr b1" "square b"
  shows "square b1"
proof -
  from assms(1) obtain j i where ji: "j < length b" "b1 = b[j := (b ! j)[i := v]]"
    by (rule set_cell_Inr)
  have "length row = length b" if "row \<in> set b1" for row
  proof -
    from that ji(2) have "row = (b ! j)[i := v] \<or> row \<in> set b"
      using set_update_subset_insert[of b j "(b ! j)[i := v]"] by auto
    with assms(2) ji(1) show ?thesis by (auto simp: square_def)
  qed
  with ji(2) show ?thesis by (simp add: square_def)
qed

lemma set_flips_square: "set_flips b fs v = Inr b' \<Longrightarrow> square b \<Longrightarrow> square b'"
proof (induction fs arbitrary: b)
  case Nil
  then show ?case by simp
next
  case (Cons f fs)
  obtain fx fy where f: "f = (fx, fy)" by (cases f)
  from Cons.prems(1) f obtain b1 where b1: "set_cell b fx fy v = Inr b1"
    and rest: "set_flips b1 fs v = Inr b'"
    by (auto split: sum.splits)
  from Cons.IH[OF rest set_cell_square[OF b1 Cons.prems(2)]] show ?case .
qed

lemma apply_move_square:
  assumes "apply_move colour coord b = Inr (n, b')" "square b"
  shows "square b'"
proof -
  from assms(1) obtain v b1 fl where "set_cell b (fst coord - 1) (snd coord - 1) v = Inr b1"
    "set_flips b1 fl v = Inr b'"
    by (auto simp: apply_move_def Let_def split: sum.splits)
  with assms(2) show ?thesis by (blast intro: set_cell_square set_flips_square)
qed

text \<open>
  C5: a legal move of the current colour (Black or White) in a game that is not
  finished, on a square board. \<open>move\<close> applies it and resolves the next player on the
  resulting board: when the opponent has a legal move the opponent is the current
  player; otherwise, when the mover has one, the mover stays the current player;
  otherwise the game is marked finished and the response gives the final counts of
  \<open>count_pieces\<close> with the winner, the colour with strictly more pieces, or the draw
  (the current player stored is then the opponent).
  In the first two cases the game is not marked finished. (The bound on the board's
  size keeps \<^verbatim>\<open>chr\<close> in its range.)
\<close>

theorem move_resolves_next_player:
  assumes "\<not> game_finished s" and "current s \<in> {''Black'', ''White''}"
    and "square (state_board s)" and "int (length (state_board s)) < 1114048"
    and "py_int xs = Inr x" and "py_int ys = Inr y"
    and "legal_move (current s) (x, y) (state_board s) = Inr True"
  shows "\<exists>n b' opp_can cur_can s' r.
      apply_move (current s) (x, y) (state_board s) = Inr (n, b') \<and>
      has_any_legal_moves (other_colour (current s)) b' = Inr opp_can \<and>
      has_any_legal_moves (current s) b' = Inr cur_can \<and>
      move (Some s) xs ys = Inr (s', r) \<and>
      state_board s' = b' \<and> current_player r = current s' \<and>
      (opp_can \<longrightarrow>
         current s' = other_colour (current s) \<and> \<not> game_finished s' \<and> finished r = None) \<and>
      (\<not> opp_can \<and> cur_can \<longrightarrow>
         current s' = current s \<and> \<not> game_finished s' \<and> finished r = None) \<and>
      (\<not> opp_can \<and> \<not> cur_can \<longrightarrow>
         game_finished s' \<and> current s' = other_colour (current s) \<and>
         finished r = Some (fst (count_pieces b'), snd (count_pieces b'),
           if fst (count_pieces b') > snd (count_pieces b') then ''Black wins!''
           else if snd (count_pieces b') > fst (count_pieces b') then ''White wins!''
           else ''It's a draw!''))"
proof -
  let ?cur = "current s" and ?b = "state_board s"
  from assms(7) have inb: "1 \<le> x \<and> x \<le> int (length ?b) \<and> 1 \<le> y \<and> y \<le> int (length ?b)"
    using legal_move_outside[of x ?b y ?cur] by auto
  with assms(7) obtain fl where fl: "discs_to_flip ?b ?cur (x - 1) (y - 1) = Inr fl" "fl \<noteq> []"
    by (auto simp: legal_move_inside split: sum.splits)
  then have "cell_exists ?b (x - 1, y - 1)" by (rule discs_to_flip_nonempty)
  from apply_move_returns[OF fl(1) this] obtain b' where
    ap: "apply_move ?cur (x, y) ?b = Inr (length fl, b')" by blast
  have sq: "square b'" using ap assms(3) by (rule apply_move_square)
  obtain opp_can where opp: "has_any_legal_moves (other_colour ?cur) b' = Inr opp_can"
    using sq by (simp add: has_any_legal_moves_square)
  obtain cur_can where cur: "has_any_legal_moves ?cur b' = Inr cur_can"
    using sq by (simp add: has_any_legal_moves_square)
  have fin: "is_game_finished b' = Inr (\<not> opp_can \<and> \<not> cur_can)"
    using assms(2) opp cur
    by (auto simp: is_game_finished_def other_colour_def split: bool.splits)
  have "\<exists>p. next_player ?cur b' =
      Inr (if opp_can then other_colour ?cur else if cur_can then ?cur else other_colour ?cur, p)"
    by (cases opp_can; cases cur_can) (simp_all add: next_player_def Let_def opp cur)
  then obtain nxt where nxt: "next_player ?cur b' = Inr nxt"
    and nxt1: "opp_can \<longrightarrow> fst nxt = other_colour ?cur"
    and nxt2: "\<not> opp_can \<and> cur_can \<longrightarrow> fst nxt = ?cur"
    and nxt3: "\<not> opp_can \<and> \<not> cur_can \<longrightarrow> fst nxt = other_colour ?cur"
    by auto
  have ntn: "coord_to_notation x y = Inr (65 + x - 1, y)"
    using inb assms(4) by (simp add: coord_to_notation_def Let_def)
  obtain s' r where mv: "move (Some s) xs ys = Inr (s', r)"
    and s': "s' = \<lparr>state_board = b', current = fst nxt,
        move_history = move_history s @ [(65 + x - 1, y)],
        game_finished = (\<not> opp_can \<and> \<not> cur_can)\<rparr>"
    and r: "current_player r = fst nxt"
      "finished r = (if \<not> opp_can \<and> \<not> cur_can then Some (finished_text b') else None)"
    using assms(1,5,6,7) ap ntn nxt fin
    by (cases nxt) (simp add: move_def Let_def)
  have "finished_text b' = (fst (count_pieces b'), snd (count_pieces b'),
           if fst (count_pieces b') > snd (count_pieces b') then ''Black wins!''
           else if snd (count_pieces b') > fst (count_pieces b') then ''White wins!''
           else ''It's a draw!'')"
    by (simp add: finished_text_def Let_def)
  with ap opp cur mv s' r nxt1 nxt2 nxt3 show ?thesis
    by (intro exI[of _ "length fl"] exI[of _ b'] exI[of _ opp_can] exI[of _ cur_can]
        exI[of _ s'] exI[of _ r]) simp
qed

theorem move_resolves_next_player_witness:
  "(\<not> game_finished opening_state \<and> current opening_state \<in> {''Black'', ''White''} \<and>
    square (state_board opening_state) \<and> int (length (state_board opening_state)) < 1114048 \<and>
    py_int ''3'' = Inr 3 \<and> py_int ''4'' = Inr 4 \<and>
    legal_move (current opening_state) (3, 4) (state_board opening_state) = Inr True \<and>
    outcome (move (Some opening_state) ''3'' ''4'') = Some (''White'', False, None)) \<and>
   (\<not> game_finished pass_state \<and> current pass_state \<in> {''Black'', ''White''} \<and>
    square (state_board pass_state) \<and> int (length (state_board pass_state)) < 1114048 \<and>
    py_int ''1'' = Inr 1 \<and>
    legal_move (current pass_state) (1, 1) (state_board pass_state) = Inr True \<and>
    outcome (move (Some pass_state) ''1'' ''1'') = Some (''Black'', False, None)) \<and>
   (\<not> game_finished last_move_state \<and> current last_move_state \<in> {''Black'', ''White''} \<and>
    square (state_board last_move_state) \<and>
    int (length (state_board last_move_state)) < 1114048 \<and>
    legal_move (current last_move_state) (1, 1) (state_board last_move_state) = Inr True \<and>
    outcome (move (Some last_move_state) ''1'' ''1'') =
      Some (''White'', True, Some (9, 0, ''Black wins!'')))"
proof -
  have p: "py_int ''3'' = Inr 3" "py_int ''4'' = Inr 4" "py_int ''1'' = Inr 1"
    by code_simp+
  have o: "\<not> game_finished opening_state" "current opening_state \<in> {''Black'', ''White''}"
    "square (state_board opening_state)" "int (length (state_board opening_state)) < 1114048"
    "legal_move (current opening_state) (3, 4) (state_board opening_state) = Inr True"
    by code_simp+
  have q: "\<not> game_finished pass_state" "current pass_state \<in> {''Black'', ''White''}"
    "square (state_board pass_state)" "int (length (state_board pass_state)) < 1114048"
    "legal_move (current pass_state) (1, 1) (state_board pass_state) = Inr True"
    by code_simp+
  have l: "\<not> game_finished last_move_state" "current last_move_state \<in> {''Black'', ''White''}"
    "square (state_board last_move_state)"
    "int (length (state_board last_move_state)) < 1114048"
    "legal_move (current last_move_state) (1, 1) (state_board last_move_state) = Inr True"
    by code_simp+
  have a1: "case apply_move ''Black'' (3, 4) standard_board of
      Inl e \<Rightarrow> False
    | Inr (n, b') \<Rightarrow> has_any_legal_moves ''White'' b' = Inr True"
    by code_simp
  have a2: "case apply_move ''Black'' (1, 1) pass_board of
      Inl e \<Rightarrow> False
    | Inr (n, b') \<Rightarrow> has_any_legal_moves ''White'' b' = Inr False \<and>
        has_any_legal_moves ''Black'' b' = Inr True"
    by code_simp
  have a3: "case apply_move ''Black'' (1, 1) last_move_board of
      Inl e \<Rightarrow> False
    | Inr (n, b') \<Rightarrow> has_any_legal_moves ''White'' b' = Inr False \<and>
        has_any_legal_moves ''Black'' b' = Inr False \<and> count_pieces b' = (9, 0)"
    by code_simp
  have r1: "outcome (move (Some opening_state) ''3'' ''4'') = Some (''White'', False, None)"
    using move_resolves_next_player[OF o(1-4) p(1,2) o(5)] a1
    by (auto simp: outcome_def opening_state_def other_colour_def)
  have r2: "outcome (move (Some pass_state) ''1'' ''1'') = Some (''Black'', False, None)"
    using move_resolves_next_player[OF q(1-4) p(3,3) q(5)] a2
    by (auto simp: outcome_def pass_state_def other_colour_def)
  have r3: "outcome (move (Some last_move_state) ''1'' ''1'') =
      Some (''White'', True, Some (9, 0, ''Black wins!''))"
    using move_resolves_next_player[OF l(1-4) p(3,3) l(5)] a3
    by (auto simp: outcome_def last_move_state_def other_colour_def)
  from p o q l r1 r2 r3 show ?thesis by simp
qed

section \<open>The flip set has no repetition\<close>

lemma DIRECTIONS_unit:
  "(dx, dy) \<in> set DIRECTIONS \<Longrightarrow>
   dx \<in> {-1, 0, 1} \<and> dy \<in> {-1, 0, 1} \<and> \<not> (dx = 0 \<and> dy = 0)"
  by (auto simp: DIRECTIONS_def)

lemma distinct_DIRECTIONS: "distinct DIRECTIONS"
  by (simp add: DIRECTIONS_def)

lemma walk_ray:
  "walk b me other dx dy cx cy line = Inr l \<Longrightarrow>
   cx = x0 + int k * dx \<Longrightarrow> cy = y0 + int k * dy \<Longrightarrow>
   line = map (ray x0 y0 dx dy) [1 ..< k] \<Longrightarrow> 1 \<le> k \<Longrightarrow>
   \<exists>m. l = map (ray x0 y0 dx dy) [1 ..< m]"
proof (induction b me other dx dy cx cy line arbitrary: k rule: walk.induct)
  case (1 board me other dx dy cx cy line)
  show ?case
  proof (cases "0 \<le> cx \<and> cx < int (length board) \<and> 0 \<le> cy \<and> cy < int (length board)")
    case False
    with "1.prems"(1) have "l = map (ray x0 y0 dx dy) [1 ..< 0]" by (simp add: walk_outside)
    then show ?thesis ..
  next
    case True
    with "1.prems"(1) obtain c where c: "get_cell board cx cy = Inr c"
      by (auto simp: walk_inside split: sum.splits)
    show ?thesis
    proof (cases "strip c = other")
      case other: True
      with "1.prems"(1) True c have nz: "\<not> (dx = 0 \<and> dy = 0)"
        and rec: "walk board me other dx dy (cx + dx) (cy + dy) (line @ [(cx, cy)]) = Inr l"
        by (auto simp: walk_inside split: if_splits)
      have x: "cx + dx = x0 + int (Suc k) * dx" and y: "cy + dy = y0 + int (Suc k) * dy"
        using "1.prems"(2,3) by (simp_all add: algebra_simps)
      have "[1 ..< Suc k] = [1 ..< k] @ [k]" using "1.prems"(5) by simp
      then have line: "line @ [(cx, cy)] = map (ray x0 y0 dx dy) [1 ..< Suc k]"
        using "1.prems"(2,3,4) by (simp add: ray_def)
      from "1.IH"[OF refl True c refl other nz rec x y line] show ?thesis by simp
    next
      case False
      with "1.prems"(1) True c have "l = line \<or> l = []"
        by (auto simp: walk_inside split: if_splits)
      then show ?thesis
      proof
        assume "l = line"
        with "1.prems"(4) show ?thesis by blast
      next
        assume "l = []"
        then have "l = map (ray x0 y0 dx dy) [1 ..< 0]" by simp
        then show ?thesis ..
      qed
    qed
  qed
qed

lemma ray_dir_of:
  assumes "dx \<in> {-1, 0, 1}" "dy \<in> {-1, 0, 1}" "1 \<le> k"
  shows "dir_of x0 y0 (ray x0 y0 dx dy k) = (dx, dy)"
  using assms by (auto simp: dir_of_def ray_def sgn_mult)

lemma ray_inj:
  assumes "\<not> (dx = 0 \<and> dy = 0)"
  shows "inj_on (ray x0 y0 dx dy) A"
  using assms by (auto simp: inj_on_def ray_def)

lemma segment_distinct:
  "\<not> (dx = 0 \<and> dy = 0) \<Longrightarrow> distinct (map (ray x0 y0 dx dy) [1 ..< m])"
  by (simp add: distinct_map ray_inj)

lemma flip_dirs_distinct:
  "flip_dirs b me other x0 y0 ds flips = Inr fl \<Longrightarrow>
   distinct ds \<Longrightarrow> set ds \<subseteq> set DIRECTIONS \<Longrightarrow> distinct flips \<Longrightarrow>
   \<forall>p \<in> set flips. dir_of x0 y0 p \<in> set DIRECTIONS \<and> dir_of x0 y0 p \<notin> set ds \<Longrightarrow>
   distinct fl \<and> (\<forall>p \<in> set fl. dir_of x0 y0 p \<in> set DIRECTIONS)"
proof (induction ds arbitrary: flips)
  case Nil
  then show ?case by simp
next
  case (Cons d ds)
  obtain dx dy where d: "d = (dx, dy)" by (cases d)
  from Cons.prems(1) d obtain l where l: "walk b me other dx dy (x0 + dx) (y0 + dy) [] = Inr l"
    and rest: "flip_dirs b me other x0 y0 ds (flips @ l) = Inr fl"
    by (auto split: sum.splits)
  from Cons.prems(3) d have din: "(dx, dy) \<in> set DIRECTIONS" by simp
  then have unit: "dx \<in> {-1, 0, 1}" "dy \<in> {-1, 0, 1}" "\<not> (dx = 0 \<and> dy = 0)"
    using DIRECTIONS_unit by blast+
  from walk_ray[OF l, of x0 1 y0] obtain m where m: "l = map (ray x0 y0 dx dy) [1 ..< m]"
    by auto
  have ldir: "dir_of x0 y0 p = d" if "p \<in> set l" for p
    using that m d ray_dir_of[OF unit(1,2)] by auto
  have ldist: "distinct l" using m segment_distinct[OF unit(3)] by simp
  have disj: "set flips \<inter> set l = {}"
    using ldir Cons.prems(5) by fastforce
  have i1: "distinct (flips @ l)" using Cons.prems(4) ldist disj by simp
  have i2: "\<forall>p \<in> set (flips @ l). dir_of x0 y0 p \<in> set DIRECTIONS \<and> dir_of x0 y0 p \<notin> set ds"
    using Cons.prems(2,5) ldir din d by auto
  from Cons.prems(2,3) have "distinct ds" "set ds \<subseteq> set DIRECTIONS" by simp_all
  from Cons.IH[OF rest this i1 i2] show ?case .
qed

lemma discs_to_flip_distinct:
  assumes "discs_to_flip b colour x0 y0 = Inr fl"
  shows "distinct fl \<and> (x0, y0) \<notin> set fl"
proof (cases "fl = []")
  case True
  then show ?thesis by simp
next
  case False
  with assms have
    "flip_dirs b (strip colour) (if strip colour = ''Black'' then ''White'' else ''Black'')
       x0 y0 DIRECTIONS [] = Inr fl"
    by (rule discs_to_flip_nonempty)
  from flip_dirs_distinct[OF this distinct_DIRECTIONS]
  have d: "distinct fl" and dirs: "\<forall>p \<in> set fl. dir_of x0 y0 p \<in> set DIRECTIONS" by simp_all
  have "dir_of x0 y0 (x0, y0) = (0, 0)" by (simp add: dir_of_def)
  with dirs DIRECTIONS_nonzero have "(x0, y0) \<notin> set fl" by metis
  with d show ?thesis ..
qed

section \<open>Counting pieces\<close>

lemma count_row:
  "fst (foldl count_cell acc row) + snd (foldl count_cell acc row) =
   fst acc + snd acc + sum_list (map occupied row)"
proof (induction row arbitrary: acc)
  case Nil
  then show ?case by simp
next
  case (Cons c row)
  obtain k w where acc: "acc = (k, w)" by (cases acc)
  have "fst (count_cell (k, w) c) + snd (count_cell (k, w) c) = k + w + occupied c"
    by (simp add: occupied_def Let_def)
  then show ?case
    unfolding foldl_Cons Cons.IH acc by simp
qed

lemma count_rows:
  "fst (foldl (\<lambda>acc row. foldl count_cell acc row) acc b) +
   snd (foldl (\<lambda>acc row. foldl count_cell acc row) acc b) =
   fst acc + snd acc + sum_list (map (\<lambda>row. sum_list (map occupied row)) b)"
proof (induction b arbitrary: acc)
  case Nil
  then show ?case by simp
next
  case (Cons row b)
  show ?case
    unfolding foldl_Cons Cons.IH by (simp add: count_row)
qed

lemma count_pieces_total:
  "fst (count_pieces b) + snd (count_pieces b) =
   sum_list (map (\<lambda>row. sum_list (map occupied row)) b)"
  by (simp add: count_pieces_def count_rows)

lemma sum_list_map_update:
  fixes f :: "'a \<Rightarrow> nat"
  shows "i < length xs \<Longrightarrow>
   sum_list (map f (xs[i := v])) + f (xs ! i) = sum_list (map f xs) + f v"
proof (induction xs arbitrary: i)
  case Nil
  then show ?case by simp
next
  case (Cons a xs)
  then show ?case by (cases i) (simp_all add: add.assoc add.left_commute)
qed

lemma total_update:
  assumes "j < length b" "i < length (b ! j)"
  shows "sum_list (map (\<lambda>row. sum_list (map occupied row)) (b[j := (b ! j)[i := v]])) +
           occupied (b ! j ! i) =
         sum_list (map (\<lambda>row. sum_list (map occupied row)) b) + occupied v"
proof -
  let ?f = "\<lambda>row. sum_list (map occupied row)"
  have "sum_list (map ?f (b[j := (b ! j)[i := v]])) + ?f (b ! j) =
      sum_list (map ?f b) + ?f ((b ! j)[i := v])"
    using assms(1) by (rule sum_list_map_update)
  moreover have "?f ((b ! j)[i := v]) + occupied (b ! j ! i) = ?f (b ! j) + occupied v"
    using assms(2) by (rule sum_list_map_update)
  ultimately show ?thesis by linarith
qed

section \<open>The board after the writes of \<open>apply_move\<close>\<close>

lemma shape_length: "shape b' = shape b \<Longrightarrow> length b' = length b"
  unfolding shape_def by (rule map_eq_imp_length_eq)

lemma shape_row:
  assumes "shape b' = shape b" "y < length b"
  shows "length (b' ! y) = length (b ! y)"
proof -
  have "map length b' ! y = map length b ! y" using assms(1) by (simp add: shape_def)
  then show ?thesis using assms(2) shape_length[OF assms(1)] by simp
qed

lemma shape_cell_exists:
  assumes "shape b' = shape b"
  shows "cell_exists b' q = cell_exists b q"
proof (cases "nat (snd q) < length b")
  case True
  then show ?thesis
    by (simp add: cell_exists_def shape_length[OF assms] shape_row[OF assms])
next
  case False
  then show ?thesis by (simp add: cell_exists_def shape_length[OF assms])
qed

lemma shape_positions:
  assumes "shape b' = shape b"
  shows "positions b' = positions b"
proof -
  have "map (\<lambda>y. map (\<lambda>x. (int x, int y)) [0 ..< length (b' ! y)]) [0 ..< length b] =
      map (\<lambda>y. map (\<lambda>x. (int x, int y)) [0 ..< length (b ! y)]) [0 ..< length b]"
    by (rule map_cong) (simp_all add: shape_row[OF assms])
  then show ?thesis by (simp only: positions_def shape_length[OF assms])
qed

lemma shape_update: "shape (b[j := (b ! j)[i := v]]) = shape b"
  by (cases "length b \<le> j") (simp_all add: shape_def map_update list_update_same_conv list_update_beyond)

lemma get_cell_cell_at: "cell_exists b p \<Longrightarrow> get_cell b (fst p) (snd p) = Inr (cell_at b p)"
  by (simp add: get_cell_exists cell_at_def)

lemma cell_at_update:
  assumes "cell_exists b p" "cell_exists b q"
  shows "cell_at (b[nat (snd p) := (b ! nat (snd p))[nat (fst p) := v]]) q =
     (if q = p then v else cell_at b q)"
proof (cases "q = p")
  case True
  with assms show ?thesis by (simp add: cell_at_def cell_exists_def)
next
  case False
  then have "nat (snd q) \<noteq> nat (snd p) \<or> nat (fst q) \<noteq> nat (fst p)"
    using assms by (auto simp: cell_exists_def prod_eq_iff)
  with False assms show ?thesis
    by (auto simp: cell_at_def cell_exists_def nth_list_update)
qed

lemma pieces_update:
  assumes "cell_exists b p"
  shows "pieces (b[nat (snd p) := (b ! nat (snd p))[nat (fst p) := v]]) + occupied (cell_at b p) =
     pieces b + occupied v"
  using assms total_update[of "nat (snd p)" b "nat (fst p)" v]
  by (simp add: pieces_def cell_at_def cell_exists_def)

lemma set_flips_board:
  "set_flips b fs v = Inr b' \<Longrightarrow> \<forall>p \<in> set fs. cell_exists b p \<Longrightarrow>
   shape b' = shape b \<and>
   (\<forall>q. cell_exists b q \<longrightarrow> cell_at b' q = (if q \<in> set fs then v else cell_at b q))"
proof (induction fs arbitrary: b)
  case Nil
  then show ?case by simp
next
  case (Cons f fs)
  let ?b1 = "b[nat (snd f) := (b ! nat (snd f))[nat (fst f) := v]]"
  have f: "cell_exists b f" using Cons.prems(2) by simp
  then have "set_cell b (fst f) (snd f) v = Inr ?b1" by (rule set_cell_exists)
  with Cons.prems(1) have rest: "set_flips ?b1 fs v = Inr b'" by (cases f) simp
  have ex: "cell_exists ?b1 q = cell_exists b q" for q by (rule cell_exists_update)
  with Cons.prems(2) have "\<forall>p \<in> set fs. cell_exists ?b1 p" by simp
  from Cons.IH[OF rest this]
  have sh: "shape b' = shape ?b1"
    and ce: "\<forall>q. cell_exists ?b1 q \<longrightarrow> cell_at b' q = (if q \<in> set fs then v else cell_at ?b1 q)"
    by simp_all
  have "cell_at b' q = (if q \<in> set (f # fs) then v else cell_at b q)" if q: "cell_exists b q" for q
  proof -
    from q ex have "cell_exists ?b1 q" by simp
    with ce have "cell_at b' q = (if q \<in> set fs then v else cell_at ?b1 q)" by blast
    also have "cell_at ?b1 q = (if q = f then v else cell_at b q)"
      using f q by (rule cell_at_update)
    finally show ?thesis by simp
  qed
  with sh show ?case by (simp add: shape_update)
qed

lemma set_flips_pieces:
  "set_flips b fs v = Inr b' \<Longrightarrow>
   \<forall>p \<in> set fs. cell_exists b p \<and> occupied (cell_at b p) = 1 \<Longrightarrow> occupied v = 1 \<Longrightarrow>
   pieces b' = pieces b"
proof (induction fs arbitrary: b)
  case Nil
  then show ?case by simp
next
  case (Cons f fs)
  let ?b1 = "b[nat (snd f) := (b ! nat (snd f))[nat (fst f) := v]]"
  have f: "cell_exists b f" "occupied (cell_at b f) = 1" using Cons.prems(2) by simp_all
  from f(1) have "set_cell b (fst f) (snd f) v = Inr ?b1" by (rule set_cell_exists)
  with Cons.prems(1) have rest: "set_flips ?b1 fs v = Inr b'" by (cases f) simp
  have "cell_exists ?b1 p \<and> occupied (cell_at ?b1 p) = 1" if "p \<in> set fs" for p
  proof -
    from that Cons.prems(2) have p: "cell_exists b p" "occupied (cell_at b p) = 1" by simp_all
    have "cell_at ?b1 p = (if p = f then v else cell_at b p)"
      using f(1) p(1) by (rule cell_at_update)
    with p Cons.prems(3) show ?thesis by (simp add: cell_exists_update)
  qed
  then have inv: "\<forall>p \<in> set fs. cell_exists ?b1 p \<and> occupied (cell_at ?b1 p) = 1" by blast
  have "pieces b' = pieces ?b1" using rest inv Cons.prems(3) by (rule Cons.IH)
  moreover have "pieces ?b1 = pieces b"
    using pieces_update[OF f(1), of v] f(2) Cons.prems(3) by linarith
  ultimately show ?case by simp
qed

section \<open>The cells of a board, listed\<close>

lemma in_concat_map: "p \<in> set (concat (map f ys)) \<longleftrightarrow> (\<exists>y \<in> set ys. p \<in> set (f y))"
  by auto

lemma in_row: "p \<in> set (map (\<lambda>x. (int x, int y)) [0 ..< n]) \<longleftrightarrow> (\<exists>x < n. p = (int x, int y))"
  by auto

lemma in_positions:
  "p \<in> set (positions b) \<longleftrightarrow> (\<exists>y < length b. \<exists>x < length (b ! y). p = (int x, int y))"
proof -
  have "p \<in> set (positions b) \<longleftrightarrow>
      (\<exists>y \<in> set [0 ..< length b]. p \<in> set (map (\<lambda>x. (int x, int y)) [0 ..< length (b ! y)]))"
    unfolding positions_def by (rule in_concat_map)
  also have "\<dots> \<longleftrightarrow> (\<exists>y < length b. \<exists>x < length (b ! y). p = (int x, int y))"
    unfolding in_row by (simp add: Bex_def)
  finally show ?thesis .
qed

lemma set_positions_a: "p \<in> set (positions b) \<Longrightarrow> cell_exists b p"
proof -
  assume "p \<in> set (positions b)"
  then obtain x y where "y < length b" "x < length (b ! y)" "p = (int x, int y)"
    unfolding in_positions by blast
  then show "cell_exists b p"
    by (simp add: cell_exists_def)
qed

lemma set_positions_b: "cell_exists b p \<Longrightarrow> p \<in> set (positions b)"
proof -
  assume "cell_exists b p"
  then have "nat (snd p) < length b" "nat (fst p) < length (b ! nat (snd p))"
    "p = (int (nat (fst p)), int (nat (snd p)))"
    by (simp_all add: cell_exists_def prod_eq_iff)
  then show "p \<in> set (positions b)"
    unfolding in_positions by blast
qed

lemma set_positions: "set (positions b) = {p. cell_exists b p}"
  using set_positions_a set_positions_b by blast

lemma distinct_rows:
  "distinct ys \<Longrightarrow>
   distinct (concat (map (\<lambda>y. map (\<lambda>x. (int x, int y)) [0 ..< len y]) ys))"
proof (induction ys)
  case Nil
  then show ?case by simp
next
  case (Cons y ys)
  let ?row = "map (\<lambda>x. (int x, int y)) [0 ..< len y]"
  let ?rest = "concat (map (\<lambda>y. map (\<lambda>x. (int x, int y)) [0 ..< len y]) ys)"
  have d: "distinct ?row" by (simp add: distinct_map inj_on_def)
  have r: "snd p = int y" if "p \<in> set ?row" for p using that by auto
  have s: "snd p \<in> int ` set ys" if "p \<in> set ?rest" for p using that by auto
  have n: "int y \<notin> int ` set ys" using Cons.prems by auto
  have "set ?row \<inter> set ?rest = {}"
  proof (rule ccontr)
    assume "set ?row \<inter> set ?rest \<noteq> {}"
    then obtain p where "p \<in> set ?row" "p \<in> set ?rest" by blast
    with r s n show False by metis
  qed
  with d Cons show ?case by simp
qed

lemma distinct_positions: "distinct (positions b)"
  unfolding positions_def by (rule distinct_rows) simp

section \<open>Conservation\<close>

lemma occupied_colour:
  "strip c = ''None'' \<Longrightarrow> occupied c = 0"
  "strip c = ''Black'' \<Longrightarrow> occupied c = 1"
  "strip c = ''White'' \<Longrightarrow> occupied c = 1"
  by (simp_all add: occupied_def)

text \<open>
  C6: for every board and every legal move of Black or White, \<open>apply_move\<close> returns,
  the sum of the two counts of \<open>count_pieces\<close> grows by exactly 1, and the returned
  number of flips is the number of cells, other than the placed one, that read
  differently after the move.
\<close>

theorem apply_move_conservation:
  assumes "colour \<in> {''Black'', ''White''}" and "legal_move colour (x, y) b = Inr True"
  shows "\<exists>n b'. apply_move colour (x, y) b = Inr (n, b') \<and>
     fst (count_pieces b') + snd (count_pieces b') =
       fst (count_pieces b) + snd (count_pieces b) + 1 \<and>
     n = length (filter (\<lambda>p. p \<noteq> (x - 1, y - 1)) (changed_cells b b'))"
proof -
  let ?t = "(x - 1, y - 1)"
  let ?other = "if strip colour = ''Black'' then ''White'' else ''Black''"
  let ?b1 = "b[nat (y - 1) := (b ! nat (y - 1))[nat (x - 1) := colour]]"
  from assms(2) have inb: "1 \<le> x \<and> x \<le> int (length b) \<and> 1 \<le> y \<and> y \<le> int (length b)"
    using legal_move_outside[of x b y colour] by auto
  with assms(2) obtain fl where fl: "discs_to_flip b colour (x - 1) (y - 1) = Inr fl" "fl \<noteq> []"
    by (auto simp: legal_move_inside split: sum.splits)
  from fl obtain c where t: "cell_exists b ?t" and c: "get_cell b (x - 1) (y - 1) = Inr c"
    "strip c = ''None''"
    by (rule discs_to_flip_nonempty)
  have sc: "strip colour = colour" using assms(1) by (auto simp: strip_Black strip_White)
  have piece: "(if colour = ''Black'' then BLACK else WHITE) = colour"
    using assms(1) by (auto simp: BLACK_def WHITE_def)
  have occ_piece: "occupied colour = 1"
    using assms(1) sc by (auto simp: occupied_def)
  have tc: "cell_at b ?t = c" using get_cell_cell_at[OF t] c by simp
  have cells: "cell_exists b p \<and> strip (cell_at b p) = ?other" if "p \<in> set fl" for p
    using discs_to_flip_cells[OF fl(1)] that get_cell_cell_at[of b p] by fastforce
  have dist: "distinct fl" and tfl: "?t \<notin> set fl"
    using discs_to_flip_distinct[OF fl(1)] by simp_all
  have s1: "set_cell b (x - 1) (y - 1) colour = Inr ?b1"
    using set_cell_exists[OF t, of colour] by simp
  have ex1: "cell_exists ?b1 q = cell_exists b q" for q by (rule cell_exists_update)
  have at1: "cell_at ?b1 q = (if q = ?t then colour else cell_at b q)" if "cell_exists b q" for q
    using cell_at_update[OF t that, of colour] by simp
  have fl1: "\<forall>p \<in> set fl. cell_exists ?b1 p" using cells ex1 by simp
  from set_flips_exists[OF this] obtain b' where s2: "set_flips ?b1 fl colour = Inr b'" by blast
  have ap: "apply_move colour (x, y) b = Inr (length fl, b')"
    using fl(1) s1 s2 piece by (simp add: apply_move_def Let_def)
  \<comment> \<open>the count\<close>
  have "pieces ?b1 + occupied (cell_at b ?t) = pieces b + occupied colour"
    using pieces_update[OF t, of colour] by simp
  then have p1: "pieces ?b1 = pieces b + 1"
    using tc c(2) occ_piece by (simp add: occupied_colour)
  have "cell_exists ?b1 p \<and> occupied (cell_at ?b1 p) = 1" if "p \<in> set fl" for p
  proof -
    from that cells have p: "cell_exists b p" "strip (cell_at b p) = ?other" by simp_all
    from that tfl have "p \<noteq> ?t" by blast
    with at1[OF p(1)] have "cell_at ?b1 p = cell_at b p" by simp
    with p ex1 show ?thesis by (auto simp: occupied_def)
  qed
  then have "\<forall>p \<in> set fl. cell_exists ?b1 p \<and> occupied (cell_at ?b1 p) = 1" by blast
  with s2 have p2: "pieces b' = pieces ?b1" using occ_piece by (rule set_flips_pieces)
  have count: "fst (count_pieces b') + snd (count_pieces b') =
      fst (count_pieces b) + snd (count_pieces b) + 1"
    using p1 p2 by (simp add: count_pieces_total pieces_def)
  \<comment> \<open>the cells that changed\<close>
  from set_flips_board[OF s2 fl1]
  have sh: "shape b' = shape ?b1"
    and at2: "\<forall>q. cell_exists ?b1 q \<longrightarrow> cell_at b' q = (if q \<in> set fl then colour else cell_at ?b1 q)"
    by simp_all
  have ex2: "cell_exists b' q = cell_exists b q" for q
    using shape_cell_exists[OF sh] ex1 by simp
  have changed: "get_cell b' (fst q) (snd q) \<noteq> get_cell b (fst q) (snd q) \<longleftrightarrow> q \<in> set fl"
    if q: "cell_exists b q" "q \<noteq> ?t" for q
  proof -
    have g: "get_cell b' (fst q) (snd q) = Inr (cell_at b' q)"
      "get_cell b (fst q) (snd q) = Inr (cell_at b q)"
      using q(1) ex2 by (simp_all add: get_cell_cell_at)
    from q(1) ex1 have "cell_exists ?b1 q" by simp
    with at2 have "cell_at b' q = (if q \<in> set fl then colour else cell_at ?b1 q)" by blast
    with at1[OF q(1)] q(2)
    have a: "cell_at b' q = (if q \<in> set fl then colour else cell_at b q)" by simp
    show ?thesis
    proof (cases "q \<in> set fl")
      case True
      with cells have "strip (cell_at b q) = ?other" by simp
      with sc have "cell_at b q \<noteq> colour" by (auto split: if_splits)
      with True a g show ?thesis by simp
    next
      case False
      with a g show ?thesis by simp
    qed
  qed
  let ?ch = "filter (\<lambda>p. p \<noteq> ?t) (changed_cells b b')"
  have "set ?ch = set fl"
  proof (intro set_eqI iffI)
    fix q assume "q \<in> set ?ch"
    then have "cell_exists b q" "q \<noteq> ?t"
      "get_cell b' (fst q) (snd q) \<noteq> get_cell b (fst q) (snd q)"
      by (simp_all add: changed_cells_def set_positions)
    with changed show "q \<in> set fl" by blast
  next
    fix q assume q: "q \<in> set fl"
    with cells tfl have "cell_exists b q" "q \<noteq> ?t" by auto
    with changed q show "q \<in> set ?ch"
      by (simp add: changed_cells_def set_positions)
  qed
  moreover have "distinct ?ch"
    by (simp add: changed_cells_def distinct_positions)
  ultimately have "length ?ch = length fl"
    using dist by (metis distinct_card)
  with ap count show ?thesis by simp
qed

theorem apply_move_conservation_witness:
  "''Black'' \<in> {''Black'', ''White''} \<and>
   legal_move ''Black'' (3, 4) standard_board = Inr True \<and>
   apply_move ''Black'' (3, 4) standard_board =
     Inr (1, standard_board[3 := (standard_board ! 3)[2 := BLACK, 3 := BLACK]]) \<and>
   count_pieces standard_board = (2, 2) \<and>
   fst (count_pieces (standard_board[3 := (standard_board ! 3)[2 := BLACK, 3 := BLACK]])) +
   snd (count_pieces (standard_board[3 := (standard_board ! 3)[2 := BLACK, 3 := BLACK]])) =
     2 + 2 + 1 \<and>
   1 = length (filter (\<lambda>p. p \<noteq> (3 - 1, 4 - 1))
         (changed_cells standard_board
            (standard_board[3 := (standard_board ! 3)[2 := BLACK, 3 := BLACK]])))"
proof -
  have c: "''Black'' \<in> {''Black'', ''White''}" by simp
  have l: "legal_move ''Black'' (3, 4) standard_board = Inr True" by code_simp
  have a: "apply_move ''Black'' (3, 4) standard_board =
     Inr (1, standard_board[3 := (standard_board ! 3)[2 := BLACK, 3 := BLACK]])"
    by code_simp
  have n: "count_pieces standard_board = (2, 2)" by code_simp
  from apply_move_conservation[OF c l] a n c l show ?thesis by simp
qed

section \<open>What \<open>py_int\<close> refuses\<close>

lemma py_int_separator:
  "py_int [CHR 0x1C, CHR ''3''] = Inl (ValueError ''invalid literal for int() with base 10'') \<and>
   py_int [CHR ''3'', CHR 0x1F] = Inl (ValueError ''invalid literal for int() with base 10'') \<and>
   py_int [CHR 0x85, CHR ''3'', CHR 0xA0] = Inr 3 \<and>
   outcome (move (Some opening_state) [CHR 0x1C, CHR ''3''] ''4'') = Some (''Black'', False, None)"
  by code_simp

lemma digit_not_space: "is_digit c \<Longrightarrow> \<not> is_int_space c"
  by (auto simp: is_digit_def is_int_space_def ord_def)

lemma digit_not_sign: "is_digit c \<Longrightarrow> c \<noteq> CHR ''-'' \<and> c \<noteq> CHR ''+''"
  by (auto simp: is_digit_def ord_def)

lemma dropWhile_hd: "xs \<noteq> [] \<Longrightarrow> \<not> P (hd xs) \<Longrightarrow> dropWhile P xs = xs"
  by (cases xs) simp_all

lemma int_strip_digits:
  assumes "\<forall>c \<in> set ds. is_digit c"
  shows "int_strip ds = ds"
proof (cases "ds = []")
  case True
  then show ?thesis by (simp add: int_strip_def)
next
  case False
  with assms have "\<not> is_int_space (hd ds)" "\<not> is_int_space (hd (rev ds))"
    by (simp_all add: digit_not_space hd_rev)
  with False show ?thesis by (simp add: int_strip_def dropWhile_hd)
qed

lemma int_digits_all:
  "\<forall>c \<in> set ds. is_digit c \<Longrightarrow> prev \<or> ds \<noteq> [] \<Longrightarrow> \<exists>n. int_digits prev acc ds = Some n"
  by (induction ds arbitrary: prev acc) auto

lemma py_int_digit_limit:
  assumes "\<forall>c \<in> set ds. is_digit c" and "4300 < length ds"
  shows "py_int ds =
     Inl (ValueError ''Exceeds the limit (4300 digits) for integer string conversion'')"
proof -
  from assms(2) have ne: "ds \<noteq> []" by auto
  with assms(1) have sign: "hd ds \<noteq> CHR ''-''" "hd ds \<noteq> CHR ''+''"
    using digit_not_sign[of "hd ds"] by simp_all
  have run: "takeWhile (\<lambda>c. is_digit c \<or> c = CHR ''_'') ds = ds"
    using assms(1) by simp
  have flt: "filter is_digit ds = ds" using assms(1) by simp
  obtain n where n: "int_digits False 0 ds = Some n"
    using int_digits_all[OF assms(1), of False 0] ne by blast
  have sel: "(if ds \<noteq> [] \<and> (hd ds = CHR ''-'' \<or> hd ds = CHR ''+'') then tl ds else ds) = ds"
    using sign by simp
  show ?thesis
    unfolding py_int_def Let_def int_strip_digits[OF assms(1)] sel run flt n
    using assms(2) by simp
qed

end
